theory Spec2Isabelle
  imports Complex_Main "HOL-Library.AList" "HOL-Library.Log_Nat"
begin

text \<open>
  A model of the PeaceMaker browser client: the notification list and the mute control of
  its \<^verbatim>\<open>App\<close> components, the settings and the voice-activity gate of \<^verbatim>\<open>AudioService\<close>,
  the settings of \<^verbatim>\<open>VideoService\<close>, and the connection handling of \<^verbatim>\<open>WebSocketService\<close>.
  Each JavaScript method is a function from the state before the call to the state after
  it. What the platform decides (the clock, a generated id, whether a constructor throws,
  the events of a socket) is an argument or an event. The definitions come first, the
  results about them after.
\<close>

section \<open>JavaScript values\<close>

text \<open>
  A JavaScript number is a finite value, one of the two infinities, or NaN. A finite value
  is the real that the double denotes. Comparison, maximum, minimum and the test for
  truthiness are exact on doubles; addition, multiplication, division and the square root
  round their result to a double (section Number operations). The two zeros are one value.
\<close>

datatype jsnum = Fin real | PosInf | NegInf | NaN

text \<open>
  The values that travel through the services: primitives, BigInt (the one value on which
  \<^verbatim>\<open>JSON.stringify\<close> throws) and plain objects as property lists in insertion order.
\<close>

datatype jsval =
    JUndefined
  | JNull
  | JBool bool
  | JNum jsnum
  | JStr string
  | JBigInt int
  | JObj "(string \<times> jsval) list"

text \<open>Truthiness of a number: \<^verbatim>\<open>if (x)\<close> fails for 0 and NaN only.\<close>

fun truthy :: "jsnum \<Rightarrow> bool" where
  "truthy (Fin x) = (x \<noteq> 0)"
| "truthy PosInf = True"
| "truthy NegInf = True"
| "truthy NaN = False"

text \<open>\<^verbatim>\<open>a === b\<close> on numbers: NaN equals nothing, itself included.\<close>

fun num_eq :: "jsnum \<Rightarrow> jsnum \<Rightarrow> bool" where
  "num_eq NaN _ = False"
| "num_eq _ NaN = False"
| "num_eq a b = (a = b)"

text \<open>
  \<^verbatim>\<open>v === n\<close> for a number \<open>n\<close>, and \<^verbatim>\<open>v === 'lit'\<close> for a string literal:
  strict equality never converts, so a value of another type is never equal.
\<close>

fun strict_eq_num :: "jsval \<Rightarrow> jsnum \<Rightarrow> bool" where
  "strict_eq_num (JNum m) n = num_eq m n"
| "strict_eq_num _ n = False"

fun strict_eq_str :: "jsval \<Rightarrow> string \<Rightarrow> bool" where
  "strict_eq_str (JStr s) lit = (s = lit)"
| "strict_eq_str _ lit = False"

text \<open>
  Property read \<^verbatim>\<open>o.k\<close>. Reading a property of \<^verbatim>\<open>undefined\<close> or \<^verbatim>\<open>null\<close> throws a
  TypeError (\<open>None\<close>); a missing property, and any property of another primitive that the
  code reads, is \<^verbatim>\<open>undefined\<close>.
\<close>

fun get_prop :: "jsval \<Rightarrow> string \<Rightarrow> jsval option" where
  "get_prop JUndefined k = None"
| "get_prop JNull k = None"
| "get_prop (JObj fs) k = (case map_of fs k of None \<Rightarrow> Some JUndefined | Some v \<Rightarrow> Some v)"
| "get_prop _ k = Some JUndefined"

section \<open>App notifications\<close>

text \<open>
  The notification state of the \<^verbatim>\<open>App\<close> component that imports the three services:
  the \<^verbatim>\<open>notifications\<close> list and the pending \<^verbatim>\<open>setTimeout\<close> callbacks, each recorded as
  its delay and the id its closure holds.
\<close>

record app =
  notifications :: "jsval list"
  removalTimers :: "(nat \<times> nat) list"

definition app_init :: app where
  "app_init = \<lparr>notifications = [], removalTimers = []\<rparr>"

text \<open>
  \<^verbatim>\<open>removeNotification(id)\<close>: \<^verbatim>\<open>setNotifications(prev => prev.filter(n => n !== id))\<close>.
  The predicate compares the list element \<open>n\<close> itself with the number \<open>id\<close>.
\<close>

definition removeNotification :: "nat \<Rightarrow> app \<Rightarrow> app" where
  "removeNotification i s =
     s\<lparr>notifications := filter (\<lambda>n. \<not> strict_eq_num n (Fin (real i))) (notifications s)\<rparr>"

text \<open>
  \<^verbatim>\<open>addNotification(message, type = 'error', duration = 8000)\<close>. \<open>now\<close> is the clock reading
  that both \<^verbatim>\<open>Date.now()\<close> and \<^verbatim>\<open>new Date()\<close> see. A default parameter takes over exactly
  when the argument is \<^verbatim>\<open>undefined\<close> (for \<open>duration\<close>: \<open>None\<close>).
\<close>

definition addNotification :: "nat \<Rightarrow> jsval \<Rightarrow> jsval \<Rightarrow> nat option \<Rightarrow> app \<Rightarrow> app" where
  "addNotification now message type duration s =
     (let type = (if type = JUndefined then JStr ''error'' else type);
          duration = (case duration of None \<Rightarrow> 8000 | Some d \<Rightarrow> d)
      in if \<not> strict_eq_str type ''error'' then s
         else
           let i = now;
               notification = JObj [(''id'', JNum (Fin (real i))), (''message'', message),
                                    (''type'', type), (''timestamp'', JNum (Fin (real now)))]
           in s\<lparr>notifications := notifications s @ [notification],
                 removalTimers := removalTimers s @ [(duration, i)]\<rparr>)"

text \<open>The timer callback \<^verbatim>\<open>() => { removeNotification(id); }\<close> of the \<open>k\<close>-th pending timer.\<close>

definition fireRemovalTimer :: "nat \<Rightarrow> app \<Rightarrow> app" where
  "fireRemovalTimer k s =
     (if k < length (removalTimers s)
      then removeNotification (snd (removalTimers s ! k))
             (s\<lparr>removalTimers := take k (removalTimers s) @ drop (Suc k) (removalTimers s)\<rparr>)
      else s)"

text \<open>A click on a rendered notification: \<^verbatim>\<open>onClick={() => removeNotification(notification.id)}\<close>.\<close>

definition clickNotification :: "nat \<Rightarrow> app \<Rightarrow> app" where
  "clickNotification k s =
     (if k < length (notifications s)
      then (case get_prop (notifications s ! k) ''id'' of
              Some (JNum (Fin x)) \<Rightarrow> removeNotification (nat \<lfloor>x\<rfloor>) s
            | _ \<Rightarrow> s)
      else s)"

section \<open>Number operations\<close>

text \<open>
  \<^verbatim>\<open>a > b\<close> on numbers: false as soon as one side is NaN.
\<close>

fun js_gt :: "jsnum \<Rightarrow> jsnum \<Rightarrow> bool" where
  "js_gt NaN _ = False"
| "js_gt _ NaN = False"
| "js_gt (Fin a) (Fin b) = (a > b)"
| "js_gt PosInf b = (b \<noteq> PosInf)"
| "js_gt NegInf b = False"
| "js_gt (Fin a) PosInf = False"
| "js_gt (Fin a) NegInf = True"

text \<open>
  \<^verbatim>\<open>Math.min\<close> and \<^verbatim>\<open>Math.max\<close> of two numbers: NaN if either argument is NaN.
\<close>

fun math_min :: "jsnum \<Rightarrow> jsnum \<Rightarrow> jsnum" where
  "math_min NaN _ = NaN"
| "math_min _ NaN = NaN"
| "math_min a b = (if js_gt a b then b else a)"

fun math_max :: "jsnum \<Rightarrow> jsnum \<Rightarrow> jsnum" where
  "math_max NaN _ = NaN"
| "math_max _ NaN = NaN"
| "math_max a b = (if js_gt b a then b else a)"

text \<open>
  Arithmetic is that of IEEE 754 doubles: every operation returns the double nearest to
  the exact result, ties going to the even significand. A finite double other than 0 is a
  real \<open>k * 2 ^ (e - 52)\<close> with \<open>e\<close> from -1022 to 1023 and \<open>k\<close> an integer below \<open>2 ^ 53\<close>
  in magnitude. The sign of a zero is not kept: no comparison below depends on it.

  \<open>expo x\<close> is the binary exponent of \<open>x \<noteq> 0\<close>, the \<open>e\<close> with \<open>2 ^ e \<le> \<bar>x\<bar> < 2 ^ (e + 1)\<close>
  (lemma \<open>expo_bracket\<close>).
\<close>

definition expo :: "real \<Rightarrow> int" where
  "expo x = (if 1 \<le> \<bar>x\<bar> then bitlen \<lfloor>\<bar>x\<bar>\<rfloor> - 1 else - bitlen (\<lceil>1 / \<bar>x\<bar>\<rceil> - 1))"

text \<open>The integer nearest to \<open>y\<close>, the even one of the two when \<open>y\<close> lies halfway.\<close>

definition round_half_even :: "real \<Rightarrow> int" where
  "round_half_even y =
     (let f = \<lfloor>y\<rfloor>; d = y - of_int f
      in if d < 1 / 2 then f else if 1 / 2 < d then f + 1 else if even f then f else f + 1)"

text \<open>
  The double that an exact result \<open>x\<close> is rounded to. The spacing of the doubles around \<open>x\<close>
  is \<open>2 ^ (e - 52)\<close>, with the exponent held at -1022 in the subnormal range (where a
  result may round to 0); a rounded magnitude of \<open>2 ^ 1024\<close> or more overflows to an
  infinity.
\<close>

definition to_double :: "real \<Rightarrow> jsnum" where
  "to_double x =
     (if x = 0 then Fin 0
      else
        let e = max (expo x) (- 1022);
            u = 2 powi (e - 52);
            y = of_int (round_half_even (x / u)) * u
        in if 2 powi 1024 \<le> \<bar>y\<bar> then (if 0 < x then PosInf else NegInf) else Fin y)"

text \<open>\<^verbatim>\<open>a + b\<close> and \<^verbatim>\<open>a * b\<close> on numbers.\<close>

fun js_add :: "jsnum \<Rightarrow> jsnum \<Rightarrow> jsnum" where
  "js_add NaN _ = NaN"
| "js_add _ NaN = NaN"
| "js_add (Fin a) (Fin b) = to_double (a + b)"
| "js_add PosInf NegInf = NaN"
| "js_add NegInf PosInf = NaN"
| "js_add PosInf _ = PosInf"
| "js_add NegInf _ = NegInf"
| "js_add (Fin a) b = b"

fun js_mul :: "jsnum \<Rightarrow> jsnum \<Rightarrow> jsnum" where
  "js_mul NaN _ = NaN"
| "js_mul _ NaN = NaN"
| "js_mul (Fin a) (Fin b) = to_double (a * b)"
| "js_mul PosInf (Fin b) = (if b = 0 then NaN else if 0 < b then PosInf else NegInf)"
| "js_mul NegInf (Fin b) = (if b = 0 then NaN else if 0 < b then NegInf else PosInf)"
| "js_mul (Fin a) PosInf = (if a = 0 then NaN else if 0 < a then PosInf else NegInf)"
| "js_mul (Fin a) NegInf = (if a = 0 then NaN else if 0 < a then NegInf else PosInf)"
| "js_mul PosInf PosInf = PosInf"
| "js_mul PosInf NegInf = NegInf"
| "js_mul NegInf PosInf = NegInf"
| "js_mul NegInf NegInf = PosInf"

text \<open>
  \<^verbatim>\<open>a / n\<close> where \<open>n\<close> is the length of an array, a non-negative integer: dividing by 0
  gives NaN for \<open>0 / 0\<close> and an infinity otherwise.
\<close>

fun js_div_length :: "jsnum \<Rightarrow> nat \<Rightarrow> jsnum" where
  "js_div_length NaN n = NaN"
| "js_div_length PosInf n = PosInf"
| "js_div_length NegInf n = NegInf"
| "js_div_length (Fin a) n =
     (if n \<noteq> 0 then to_double (a / real n)
      else if a = 0 then NaN
      else if 0 < a then PosInf else NegInf)"

text \<open>\<^verbatim>\<open>Math.sqrt\<close>: the double nearest to the exact square root.\<close>

fun math_sqrt :: "jsnum \<Rightarrow> jsnum" where
  "math_sqrt (Fin x) = (if x < 0 then NaN else to_double (sqrt x))"
| "math_sqrt PosInf = PosInf"
| "math_sqrt NegInf = NaN"
| "math_sqrt NaN = NaN"

text \<open>
  The same rounded square root computed with integers only, so that \<^verbatim>\<open>Math.sqrt\<close> can be
  evaluated: \<open>isqrt n\<close> is the integer square root of \<open>n\<close>, and \<open>sqrt_to_double x\<close> rounds
  \<open>sqrt x\<close> by comparing \<open>x\<close>, scaled by the square of the spacing, with the square of the
  halfway point. Lemma \<open>to_double_sqrt\<close> proves that it is \<open>to_double (sqrt x)\<close>.
\<close>

function isqrt :: "int \<Rightarrow> int" where
  "isqrt n =
     (if n \<le> 0 then 0
      else let r = 2 * isqrt (n div 4) in if (r + 1) * (r + 1) \<le> n then r + 1 else r)"
  by pat_completeness auto
termination
  by (relation "measure nat") auto

declare isqrt.simps [simp del]

definition sqrt_to_double :: "real \<Rightarrow> jsnum" where
  "sqrt_to_double x =
     (let e = max (expo x div 2) (- 1022);
          u = 2 powi (e - 52);
          w = x / (u * u);
          f = isqrt \<lfloor>w\<rfloor>;
          h = (of_int f + 1 / 2) * (of_int f + 1 / 2);
          k = (if w < h then f else if h < w then f + 1 else if even f then f else f + 1);
          y = of_int k * u
      in if 2 powi 1024 \<le> y then PosInf else Fin y)"

text \<open>
  The factor by which one rounding can change a result in the normal range:
  \<open>x / rounding \<le> to_double x \<le> x * rounding\<close> (lemma \<open>to_double_range\<close>).
\<close>

definition rounding :: real where
  "rounding = 1 + 1 / 2 ^ 53"

section \<open>AudioService\<close>

text \<open>
  The settings object of \<^verbatim>\<open>AudioService\<close>: the argument of \<^verbatim>\<open>updateSettings\<close> and the
  result of \<^verbatim>\<open>getSettings\<close>. \<open>None\<close> is a property that is absent, which reads as
  \<^verbatim>\<open>undefined\<close>. \<open>settings_noiseSuppression\<close> is the camel-case property
  \<^verbatim>\<open>settings.noiseSuppression\<close>, \<open>settings_channels\<close> the property \<^verbatim>\<open>channels\<close>.
\<close>

record audio_settings =
  sample_rate :: "jsnum option"
  settings_channels :: "jsnum option"
  vad_threshold :: "jsnum option"
  echo_cancellation :: "bool option"
  noise_suppression :: "bool option"
  settings_noiseSuppression :: "bool option"

text \<open>
  The fields of the service that the settings and the voice-activity gate use.
  \<open>noiseSuppression\<close> is optional because the code can store \<^verbatim>\<open>undefined\<close> in it;
  \<open>onAudioData\<close> tells whether a callback is registered.
\<close>

record audio_service =
  sampleRate :: jsnum
  channels :: jsnum
  vadThreshold :: jsnum
  echoCancellation :: bool
  noiseSuppression :: "bool option"
  onAudioData :: bool

text \<open>
  The constructor. The literal \<^verbatim>\<open>0.2\<close> denotes the double nearest to \<open>1 / 5\<close>.
\<close>

definition audio_init :: audio_service where
  "audio_init = \<lparr>sampleRate = Fin 24000, channels = Fin 1, vadThreshold = to_double 0.2,
                  echoCancellation = True, noiseSuppression = Some True, onAudioData = False\<rparr>"

definition setAudioDataCallback :: "bool \<Rightarrow> audio_service \<Rightarrow> audio_service" where
  "setAudioDataCallback callback a = a\<lparr>onAudioData := callback\<rparr>"

text \<open>
  The loop of \<^verbatim>\<open>detectVoiceActivity\<close>: \<^verbatim>\<open>sum += audioData[i] * audioData[i]\<close> from
  \<^verbatim>\<open>sum = 0\<close>, in index order, each product and each sum rounded to a double. The samples
  are the numbers that reading the array yields (for a \<^verbatim>\<open>Float32Array\<close>, single-precision
  values, NaN and the infinities included).
\<close>

definition sum_squares :: "jsnum list \<Rightarrow> jsnum" where
  "sum_squares audioData = fold (\<lambda>x sum. js_add sum (js_mul x x)) audioData (Fin 0)"

text \<open>\<^verbatim>\<open>const rms = Math.sqrt(sum / audioData.length)\<close>.\<close>

definition rms :: "jsnum list \<Rightarrow> jsnum" where
  "rms audioData = math_sqrt (js_div_length (sum_squares audioData) (length audioData))"

text \<open>\<^verbatim>\<open>return rms > this.vadThreshold\<close>. Nothing in the \<^verbatim>\<open>try\<close> block throws on an array.\<close>

definition detectVoiceActivity :: "jsnum list \<Rightarrow> audio_service \<Rightarrow> bool" where
  "detectVoiceActivity audioData a = js_gt (rms audioData) (vadThreshold a)"

text \<open>
  \<^verbatim>\<open>processAudioChunk\<close>. \<open>decoded\<close> is the channel data that the two awaited platform
  calls deliver, or \<open>None\<close> when one of them throws (the \<^verbatim>\<open>catch\<close> logs and returns). The
  result is the list of calls made to the \<^verbatim>\<open>onAudioData\<close> callback: the samples with the
  metadata \<^verbatim>\<open>sample_rate\<close>, \<^verbatim>\<open>channels\<close>, \<^verbatim>\<open>timestamp\<close>.
\<close>

definition processAudioChunk ::
  "string \<Rightarrow> jsnum list option \<Rightarrow> audio_service \<Rightarrow> (jsnum list \<times> jsnum \<times> jsnum \<times> string) list" where
  "processAudioChunk now decoded a =
     (case decoded of
        None \<Rightarrow> []
      | Some audioData \<Rightarrow>
          if detectVoiceActivity audioData a
          then (if onAudioData a then [(audioData, sampleRate a, channels a, now)] else [])
          else [])"

text \<open>
  The root mean square of real samples as the specification means it, computed exactly:
  the square root of the mean of the squares.
\<close>

definition root_mean_square :: "real list \<Rightarrow> real" where
  "root_mean_square xs = sqrt ((\<Sum>x\<leftarrow>xs. x * x) / real (length xs))"

text \<open>
  The magnitudes a finite single-precision sample can have: 0, or from the smallest
  subnormal \<open>2 ^ -149\<close> to below \<open>2 ^ 128\<close>.
\<close>

definition float32_magnitude :: "real \<Rightarrow> bool" where
  "float32_magnitude x \<longleftrightarrow> x = 0 \<or> (2 powi (- 149) \<le> \<bar>x\<bar> \<and> \<bar>x\<bar> < 2 powi 128)"

definition audio_updateSettings :: "audio_settings \<Rightarrow> audio_service \<Rightarrow> audio_service" where
  "audio_updateSettings settings a =
     (let a1 = (case sample_rate settings of
                  Some r \<Rightarrow> if truthy r then a\<lparr>sampleRate := r\<rparr> else a
                | None \<Rightarrow> a);
          a2 = (case vad_threshold settings of
                  Some t \<Rightarrow> a1\<lparr>vadThreshold := t\<rparr>
                | None \<Rightarrow> a1);
          a3 = (case echo_cancellation settings of
                  Some e \<Rightarrow> a2\<lparr>echoCancellation := e\<rparr>
                | None \<Rightarrow> a2)
      in (case noise_suppression settings of
            Some _ \<Rightarrow> a3\<lparr>noiseSuppression := settings_noiseSuppression settings\<rparr>
          | None \<Rightarrow> a3))"

definition audio_getSettings :: "audio_service \<Rightarrow> audio_settings" where
  "audio_getSettings a =
     \<lparr>sample_rate = Some (sampleRate a),
      settings_channels = Some (channels a),
      vad_threshold = Some (vadThreshold a),
      echo_cancellation = Some (echoCancellation a),
      noise_suppression = noiseSuppression a,
      settings_noiseSuppression = None\<rparr>"

text \<open>The object literal \<^verbatim>\<open>{}\<close> as a settings argument.\<close>

definition no_audio_settings :: audio_settings where
  "no_audio_settings =
     \<lparr>sample_rate = None, settings_channels = None, vad_threshold = None,
      echo_cancellation = None, noise_suppression = None, settings_noiseSuppression = None\<rparr>"

section \<open>VideoService\<close>

text \<open>
  The argument of \<^verbatim>\<open>VideoService.updateSettings\<close>, with numeric properties; \<open>None\<close> is an
  absent property. The primed names are the properties \<^verbatim>\<open>frameRate\<close>, \<^verbatim>\<open>quality\<close>,
  \<^verbatim>\<open>width\<close>, \<^verbatim>\<open>height\<close> of the argument, the unprimed ones the fields of the service.
\<close>

record video_settings =
  frameRate' :: "jsnum option"
  quality' :: "jsnum option"
  width' :: "jsnum option"
  height' :: "jsnum option"

text \<open>
  \<open>canvas\<close> holds the width and height of the offscreen canvas once \<^verbatim>\<open>initialize\<close> has
  made one. \<open>frameInterval\<close> is the running capture timer, recorded by the frame rate
  \<open>f\<close> it was started with (its period is \<^verbatim>\<open>1000 / f\<close>).
\<close>

record video_service =
  frameRate :: jsnum
  quality :: jsnum
  width :: jsnum
  height :: jsnum
  isStreaming :: bool
  canvas :: "(jsnum \<times> jsnum) option"
  frameInterval :: "jsnum option"

definition video_init :: video_service where
  "video_init = \<lparr>frameRate = Fin 30, quality = Fin 0.8, width = Fin 640, height = Fin 480,
                  isStreaming = False, canvas = None, frameInterval = None\<rparr>"

definition startFrameCapture :: "video_service \<Rightarrow> video_service" where
  "startFrameCapture v = v\<lparr>frameInterval := Some (frameRate v)\<rparr>"

definition video_updateSettings :: "video_settings \<Rightarrow> video_service \<Rightarrow> video_service" where
  "video_updateSettings settings v =
     (let v1 = (case frameRate' settings of
                  Some f \<Rightarrow>
                    if truthy f
                    then (let v' = v\<lparr>frameRate := f\<rparr>
                          in if isStreaming v' then startFrameCapture v' else v')
                    else v
                | None \<Rightarrow> v);
          v2 = (case quality' settings of
                  Some q \<Rightarrow>
                    if truthy q
                    then v1\<lparr>quality := math_max (Fin 0.1) (math_min (Fin 1.0) q)\<rparr>
                    else v1
                | None \<Rightarrow> v1);
          v3 = (case width' settings of
                  Some w \<Rightarrow>
                    if truthy w
                    then (let v' = v2\<lparr>width := w\<rparr>
                          in (case canvas v' of
                                Some (cw, ch) \<Rightarrow> v'\<lparr>canvas := Some (width v', ch)\<rparr>
                              | None \<Rightarrow> v'))
                    else v2
                | None \<Rightarrow> v2)
      in (case height' settings of
            Some h \<Rightarrow>
              if truthy h
              then (let v' = v3\<lparr>height := h\<rparr>
                    in (case canvas v' of
                          Some (cw, ch) \<Rightarrow> v'\<lparr>canvas := Some (cw, height v')\<rparr>
                        | None \<Rightarrow> v'))
              else v3
          | None \<Rightarrow> v3))"

text \<open>The object literal \<^verbatim>\<open>{quality: x}\<close>.\<close>

definition only_quality :: "jsnum \<Rightarrow> video_settings" where
  "only_quality x = \<lparr>frameRate' = None, quality' = Some x, width' = None, height' = None\<rparr>"

section \<open>WebSocketService\<close>

datatype ready_state = CONNECTING | OPEN | CLOSING | CLOSED

text \<open>
  A \<^verbatim>\<open>WebSocket\<close> object: its URL, its \<^verbatim>\<open>readyState\<close>, and \<open>sent\<close>, the values whose
  JSON text was handed to \<^verbatim>\<open>ws.send\<close>, in order. Every socket the service creates gets the
  four handlers of \<^verbatim>\<open>setupEventHandlers\<close>, which refer to the service, not to the socket.
\<close>

record socket =
  url :: string
  readyState :: ready_state
  sent :: "jsval list"

text \<open>
  The service. \<open>sockets\<close> is the store of all sockets created so far and \<open>ws\<close> the index
  of the one the service holds (\<open>None\<close> for \<^verbatim>\<open>null\<close>), so that a socket the service has
  dropped can still deliver its events. \<open>timers\<close> are the delays of the pending
  \<^verbatim>\<open>setTimeout\<close> callbacks of \<^verbatim>\<open>scheduleReconnect\<close>; \<open>scheduled\<close> is what
  \<^verbatim>\<open>scheduleReconnect\<close> logs, the attempt number and the delay of every call, in order.
  \<open>notified\<close> lists the calls of \<^verbatim>\<open>notifyConnectionHandlers\<close>. Registered callbacks are
  taken not to call back into the service; incoming messages are only handed to such
  callbacks and change no field, so they are not among the events.
\<close>

record ws_service =
  sockets :: "socket list"
  ws :: "nat option"
  sessionId :: "string option"
  reconnectAttempts :: nat
  maxReconnectAttempts :: nat
  reconnectDelay :: nat
  isConnecting :: bool
  autoReconnect :: bool
  timers :: "nat list"
  scheduled :: "(nat \<times> nat) list"
  notified :: "(string \<times> string option) list"

definition ws_init :: ws_service where
  "ws_init = \<lparr>sockets = [], ws = None, sessionId = None, reconnectAttempts = 0,
               maxReconnectAttempts = 5, reconnectDelay = 1000, isConnecting = False,
               autoReconnect = True, timers = [], scheduled = [], notified = []\<rparr>"

text \<open>The socket behind \<^verbatim>\<open>this.ws\<close>, if there is one.\<close>

definition the_socket :: "ws_service \<Rightarrow> socket option" where
  "the_socket s =
     (case ws s of
        None \<Rightarrow> None
      | Some i \<Rightarrow> if i < length (sockets s) then Some (sockets s ! i) else None)"

text \<open>\<^verbatim>\<open>this.ws?.readyState === WebSocket.OPEN\<close>, also the test of \<^verbatim>\<open>isConnected\<close>.\<close>

definition isConnected :: "ws_service \<Rightarrow> bool" where
  "isConnected s = (case the_socket s of None \<Rightarrow> False | Some k \<Rightarrow> readyState k = OPEN)"

definition set_readyState :: "nat \<Rightarrow> ready_state \<Rightarrow> ws_service \<Rightarrow> ws_service" where
  "set_readyState i r s = s\<lparr>sockets := (sockets s)[i := (sockets s ! i)\<lparr>readyState := r\<rparr>]\<rparr>"

definition notifyConnectionHandlers :: "string \<Rightarrow> ws_service \<Rightarrow> ws_service" where
  "notifyConnectionHandlers status s = s\<lparr>notified := notified s @ [(status, sessionId s)]\<rparr>"

definition handleConnectionError :: "ws_service \<Rightarrow> ws_service" where
  "handleConnectionError s = notifyConnectionHandlers ''error'' s"

text \<open>Decimal numerals, the property names of the characters of a spread string.\<close>

function dec :: "nat \<Rightarrow> string" where
  "dec n = (if n < 10 then [''0123456789'' ! n]
            else dec (n div 10) @ [''0123456789'' ! (n mod 10)])"
  by pat_completeness auto
termination
  by (relation "measure id") auto

declare dec.simps [simp del]

text \<open>
  The own enumerable properties that \<^verbatim>\<open>{...message}\<close> copies: those of an object, the
  indexed characters of a string, none for the other primitives.
\<close>

fun spread :: "jsval \<Rightarrow> (string \<times> jsval) list" where
  "spread (JObj fs) = fs"
| "spread (JStr s) = map (\<lambda>i. (dec i, JStr [s ! i])) [0..<length s]"
| "spread _ = []"

text \<open>\<^verbatim>\<open>JSON.stringify\<close> throws exactly when it meets a BigInt.\<close>

fun serializable :: "jsval \<Rightarrow> bool" where
  "serializable (JBigInt _) = False"
| "serializable (JObj fs) = (\<forall>p \<in> set fs. serializable (snd p))"
| "serializable _ = True"

definition session_value :: "ws_service \<Rightarrow> jsval" where
  "session_value s = (case sessionId s of None \<Rightarrow> JNull | Some x \<Rightarrow> JStr x)"

text \<open>
  \<^verbatim>\<open>{...message, timestamp: new Date().toISOString(), session_id: this.sessionId}\<close>, where
  \<open>now\<close> is the ISO string the clock gives.
\<close>

definition messageWithTimestamp :: "string \<Rightarrow> jsval \<Rightarrow> ws_service \<Rightarrow> jsval" where
  "messageWithTimestamp now message s =
     JObj (AList.update ''session_id'' (session_value s)
            (AList.update ''timestamp'' (JStr now) (spread message)))"

text \<open>
  \<^verbatim>\<open>send(message)\<close>: the returned flag and the service afterwards. On an open socket
  \<^verbatim>\<open>ws.send\<close> itself does not throw, so the \<^verbatim>\<open>catch\<close> is reached from
  \<^verbatim>\<open>JSON.stringify\<close> only.
\<close>

definition send :: "string \<Rightarrow> jsval \<Rightarrow> ws_service \<Rightarrow> bool \<times> ws_service" where
  "send now message s =
     (case ws s of
        None \<Rightarrow> (False, s)
      | Some i \<Rightarrow>
          if i < length (sockets s) \<and> readyState (sockets s ! i) = OPEN
          then (let m = messageWithTimestamp now message s
                in if serializable m
                   then (True, s\<lparr>sockets := (sockets s)[i := (sockets s ! i)\<lparr>sent := sent (sockets s ! i) @ [m]\<rparr>]\<rparr>)
                   else (False, s))
          else (False, s))"

definition ping :: "string \<Rightarrow> ws_service \<Rightarrow> bool \<times> ws_service" where
  "ping now s = send now (JObj [(''type'', JStr ''ping'')]) s"

text \<open>
  \<^verbatim>\<open>connect(sessionId = null)\<close>. \<open>fresh\<close> is the id that the template with
  \<^verbatim>\<open>Date.now()\<close> and \<^verbatim>\<open>Math.random()\<close> produces, used when the argument is \<^verbatim>\<open>null\<close> or
  the empty string; \<open>throws\<close> tells whether the \<^verbatim>\<open>WebSocket\<close> constructor throws.
\<close>

definition connect :: "string option \<Rightarrow> string \<Rightarrow> bool \<Rightarrow> ws_service \<Rightarrow> ws_service" where
  "connect sid fresh throws s =
     (if isConnecting s \<or> isConnected s then s
      else
        let sid' = (case sid of None \<Rightarrow> fresh | Some x \<Rightarrow> if x = [] then fresh else x);
            s1 = s\<lparr>isConnecting := True, sessionId := Some sid'\<rparr>;
            wsUrl = ''ws://localhost:8000/ws/'' @ sid'
        in if throws then handleConnectionError (s1\<lparr>isConnecting := False\<rparr>)
           else s1\<lparr>sockets := sockets s1 @ [\<lparr>url = wsUrl, readyState = CONNECTING, sent = []\<rparr>],
                   ws := Some (length (sockets s1))\<rparr>)"

definition scheduleReconnect :: "ws_service \<Rightarrow> ws_service" where
  "scheduleReconnect s =
     (let s1 = s\<lparr>reconnectAttempts := reconnectAttempts s + 1\<rparr>;
          delay = reconnectDelay s1 * 2 ^ (reconnectAttempts s1 - 1)
      in s1\<lparr>scheduled := scheduled s1 @ [(reconnectAttempts s1, delay)],
             timers := timers s1 @ [delay]\<rparr>)"

text \<open>The callback that \<^verbatim>\<open>scheduleReconnect\<close> hands to \<^verbatim>\<open>setTimeout\<close>.\<close>

definition reconnect_callback :: "string \<Rightarrow> bool \<Rightarrow> ws_service \<Rightarrow> ws_service" where
  "reconnect_callback fresh throws s =
     (if autoReconnect s \<and> \<not> isConnected s then connect (sessionId s) fresh throws s else s)"

text \<open>
  The handlers of \<^verbatim>\<open>setupEventHandlers\<close>. \<open>onopen\<close> reads the clock twice, once for the
  \<^verbatim>\<open>data\<close> of the connection message and once inside \<^verbatim>\<open>send\<close>.
\<close>

definition onopen :: "string \<Rightarrow> string \<Rightarrow> ws_service \<Rightarrow> ws_service" where
  "onopen now_data now_send s =
     (let s1 = s\<lparr>isConnecting := False, reconnectAttempts := 0\<rparr>;
          s2 = notifyConnectionHandlers ''connected'' s1
      in snd (send now_send
               (JObj [(''type'', JStr ''connection''),
                      (''data'', JObj [(''session_id'', session_value s2),
                                       (''client_type'', JStr ''web_ui''),
                                       (''timestamp'', JStr now_data)])])
               s2))"

definition onclose :: "ws_service \<Rightarrow> ws_service" where
  "onclose s =
     (let s1 = s\<lparr>isConnecting := False\<rparr>;
          s2 = notifyConnectionHandlers ''disconnected'' s1
      in if autoReconnect s2 \<and> reconnectAttempts s2 < maxReconnectAttempts s2
         then scheduleReconnect s2 else s2)"

definition onerror :: "ws_service \<Rightarrow> ws_service" where
  "onerror s = handleConnectionError s"

text \<open>
  \<^verbatim>\<open>ws.close(1000, ...)\<close> moves a connecting or open socket to CLOSING and does nothing to a
  socket that is closing or closed; its close event comes later.
\<close>

definition close_socket :: "nat \<Rightarrow> ws_service \<Rightarrow> ws_service" where
  "close_socket i s =
     (if i < length (sockets s) \<and> readyState (sockets s ! i) \<in> {CONNECTING, OPEN}
      then set_readyState i CLOSING s else s)"

definition disconnect :: "ws_service \<Rightarrow> ws_service" where
  "disconnect s =
     (let s1 = s\<lparr>autoReconnect := False\<rparr>;
          s2 = (case ws s1 of
                  Some i \<Rightarrow> (close_socket i s1)\<lparr>ws := None\<rparr>
                | None \<Rightarrow> s1);
          s3 = s2\<lparr>isConnecting := False\<rparr>
      in notifyConnectionHandlers ''disconnected'' s3)"

definition setAutoReconnect :: "bool \<Rightarrow> ws_service \<Rightarrow> ws_service" where
  "setAutoReconnect enabled s = s\<lparr>autoReconnect := enabled\<rparr>"

text \<open>
  What can happen to the service: calls of its methods, and the events of the browser.
  The browser opens a socket only while it is CONNECTING and closes one only once; it sets
  the socket's \<^verbatim>\<open>readyState\<close> before it runs the handler. \<open>Timeout k\<close> runs the \<open>k\<close>-th
  pending reconnect timer. An event that cannot happen in the current state changes nothing.
\<close>

datatype ws_event =
    Connect "string option" string bool
  | Disconnect
  | Send string jsval
  | SetAutoReconnect bool
  | OnOpen nat string string
  | OnClose nat
  | OnError nat
  | Timeout nat string bool

fun ws_step :: "ws_event \<Rightarrow> ws_service \<Rightarrow> ws_service" where
  "ws_step (Connect sid fresh throws) s = connect sid fresh throws s"
| "ws_step Disconnect s = disconnect s"
| "ws_step (Send now message) s = snd (send now message s)"
| "ws_step (SetAutoReconnect enabled) s = setAutoReconnect enabled s"
| "ws_step (OnOpen i now_data now_send) s =
     (if i < length (sockets s) \<and> readyState (sockets s ! i) = CONNECTING
      then onopen now_data now_send (set_readyState i OPEN s) else s)"
| "ws_step (OnClose i) s =
     (if i < length (sockets s) \<and> readyState (sockets s ! i) \<noteq> CLOSED
      then onclose (set_readyState i CLOSED s) else s)"
| "ws_step (OnError i) s = (if i < length (sockets s) then onerror s else s)"
| "ws_step (Timeout k fresh throws) s =
     (if k < length (timers s)
      then reconnect_callback fresh throws (s\<lparr>timers := take k (timers s) @ drop (Suc k) (timers s)\<rparr>)
      else s)"

definition ws_run :: "ws_event list \<Rightarrow> ws_service \<Rightarrow> ws_service" where
  "ws_run es s = fold ws_step es s"

text \<open>Events that are a successful open, and events that come from the browser alone.\<close>

fun is_open_event :: "ws_event \<Rightarrow> bool" where
  "is_open_event (OnOpen i now_data now_send) = True"
| "is_open_event _ = False"

fun is_browser_event :: "ws_event \<Rightarrow> bool" where
  "is_browser_event (OnOpen i now_data now_send) = True"
| "is_browser_event (OnClose i) = True"
| "is_browser_event (OnError i) = True"
| "is_browser_event (Timeout k fresh throws) = True"
| "is_browser_event _ = False"

text \<open>
  What every state reached from the constructor satisfies: the two constants keep their
  values, the counter stays within the cap, and every scheduled reconnect has the delay
  that belongs to its attempt number.
\<close>

definition backoff_inv :: "ws_service \<Rightarrow> bool" where
  "backoff_inv s \<longleftrightarrow>
     reconnectDelay s = 1000 \<and> maxReconnectAttempts s = 5 \<and> reconnectAttempts s \<le> 5 \<and>
     (\<forall>p \<in> set (scheduled s). 1 \<le> fst p \<and> fst p \<le> 5 \<and> snd p = 1000 * 2 ^ (fst p - 1))"

text \<open>
  A server that never accepts: the first connection and each of the five reconnections
  close without opening, and each reconnect timer fires.
\<close>

definition five_closes :: "ws_event list" where
  "five_closes =
     [Connect (Some ''session_1'') ''session_0_a'' False,
      OnClose 0, Timeout 0 ''session_0_a'' False,
      OnClose 1, Timeout 0 ''session_0_a'' False,
      OnClose 2, Timeout 0 ''session_0_a'' False,
      OnClose 3, Timeout 0 ''session_0_a'' False,
      OnClose 4, Timeout 0 ''session_0_a'' False]"

section \<open>App mute control\<close>

text \<open>
  The part of the \<^verbatim>\<open>App\<close> component with the mute button that \<^verbatim>\<open>toggleMute\<close>,
  \<^verbatim>\<open>sendWebSocketMessage\<close> and the two mute cases of \<^verbatim>\<open>handleWebSocketMessage\<close> read or
  write. \<open>websocketOpen\<close> is the test
  \<^verbatim>\<open>websocketRef.current && websocketRef.current.readyState === WebSocket.OPEN\<close>, and
  \<open>outbox\<close> lists the objects whose JSON text went to \<^verbatim>\<open>send\<close>. Each handler runs on
  the state of the latest render.
\<close>

record mute_app =
  isMuted :: bool
  websocketOpen :: bool
  currentSessionId :: "string option"
  outbox :: "jsval list"

definition mute_app_init :: mute_app where
  "mute_app_init =
     \<lparr>isMuted = False, websocketOpen = False, currentSessionId = None, outbox = []\<rparr>"

definition sendWebSocketMessage :: "string \<Rightarrow> jsval \<Rightarrow> mute_app \<Rightarrow> mute_app" where
  "sendWebSocketMessage type data s =
     (if websocketOpen s
      then s\<lparr>outbox := outbox s @
                [JObj [(''type'', JStr type), (''data'', data),
                       (''session_id'',
                        (case currentSessionId s of None \<Rightarrow> JNull | Some x \<Rightarrow> JStr x))]]\<rparr>
      else s)"

definition toggleMute :: "mute_app \<Rightarrow> mute_app" where
  "toggleMute s =
     (if isMuted s
      then (sendWebSocketMessage ''unmute'' (JObj []) s)\<lparr>isMuted := False\<rparr>
      else (sendWebSocketMessage ''mute'' (JObj []) s)\<lparr>isMuted := True\<rparr>)"

text \<open>
  \<^verbatim>\<open>handleWebSocketMessage\<close> as \<^verbatim>\<open>ws.onmessage\<close> calls it, inside its \<^verbatim>\<open>try\<close>: a message
  that is \<^verbatim>\<open>null\<close> makes \<^verbatim>\<open>message.type\<close> throw, which the \<^verbatim>\<open>catch\<close> logs. The cases of
  the \<^verbatim>\<open>switch\<close> other than the two below do not touch the fields of \<open>mute_app\<close>.
\<close>

definition handleWebSocketMessage :: "jsval \<Rightarrow> mute_app \<Rightarrow> mute_app" where
  "handleWebSocketMessage message s =
     (case (get_prop message ''type'', get_prop message ''status'') of
        (Some type, Some status) \<Rightarrow>
          if strict_eq_str type ''mute_response''
          then (if strict_eq_str status ''success'' then s else s\<lparr>isMuted := False\<rparr>)
          else if strict_eq_str type ''unmute_response''
          then (if strict_eq_str status ''success'' then s else s\<lparr>isMuted := True\<rparr>)
          else s
      | _ \<Rightarrow> s)"

datatype app_event = Click | Receive jsval

fun app_step :: "app_event \<Rightarrow> mute_app \<Rightarrow> mute_app" where
  "app_step Click s = toggleMute s"
| "app_step (Receive message) s = handleWebSocketMessage message s"

definition app_run :: "app_event list \<Rightarrow> mute_app \<Rightarrow> mute_app" where
  "app_run es s = fold app_step es s"

text \<open>
  The server's side, as the specification words it. The state the server last acknowledged
  changes with a response of status \<^verbatim>\<open>success\<close> only: to muted on a \<^verbatim>\<open>mute_response\<close>,
  to unmuted on an \<^verbatim>\<open>unmute_response\<close>.
\<close>

definition acknowledge :: "jsval \<Rightarrow> bool \<Rightarrow> bool" where
  "acknowledge message muted =
     (if get_prop message ''type'' = Some (JStr ''mute_response'') \<and>
         get_prop message ''status'' = Some (JStr ''success'') then True
      else if get_prop message ''type'' = Some (JStr ''unmute_response'') \<and>
         get_prop message ''status'' = Some (JStr ''success'') then False
      else muted)"

fun server_acknowledged :: "app_event list \<Rightarrow> bool \<Rightarrow> bool" where
  "server_acknowledged [] muted = muted"
| "server_acknowledged (Click # es) muted = server_acknowledged es muted"
| "server_acknowledged (Receive message # es) muted =
     server_acknowledged es (acknowledge message muted)"

text \<open>The server's response to a request, accepting it or not.\<close>

definition response :: "string \<Rightarrow> bool \<Rightarrow> jsval" where
  "response request ok =
     JObj [(''type'', JStr (request @ ''_response'')),
           (''status'', JStr (if ok then ''success'' else ''error''))]"

definition request_type :: "jsval \<Rightarrow> string" where
  "request_type m = (case get_prop m ''type'' of Some (JStr t) \<Rightarrow> t | _ \<Rightarrow> [])"

text \<open>
  A click whose requests are all answered before anything else happens, and a sequence of
  such clicks; \<open>ok\<close> is the server's verdict on each.
\<close>

definition answered_click :: "bool \<Rightarrow> mute_app \<Rightarrow> app_event list" where
  "answered_click ok s =
     Click # map (\<lambda>m. Receive (response (request_type m) ok))
                 (drop (length (outbox s)) (outbox (toggleMute s)))"

fun answered_clicks :: "bool list \<Rightarrow> mute_app \<Rightarrow> app_event list" where
  "answered_clicks [] s = []"
| "answered_clicks (ok # oks) s =
     answered_click ok s @ answered_clicks oks (app_run (answered_click ok s) s)"

section \<open>Notifications: results\<close>

text \<open>The filter of \<^verbatim>\<open>removeNotification\<close> keeps every element that is an object.\<close>

lemma removeNotification_keeps_objects:
  "\<forall>n \<in> set (notifications s). \<exists>fs. n = JObj fs \<Longrightarrow> removeNotification i s = s"
proof -
  assume objs: "\<forall>n \<in> set (notifications s). \<exists>fs. n = JObj fs"
  have "filter (\<lambda>n. \<not> strict_eq_num n (Fin (real i))) (notifications s) = notifications s"
    using objs by (intro filter_True) auto
  then show ?thesis
    by (simp add: removeNotification_def)
qed

text \<open>
  C10. For every message and every type other than \<^verbatim>\<open>'error'\<close>, \<^verbatim>\<open>addNotification\<close>
  returns with the notifications list and the pending removal timers exactly as they were.
  (A type argument of \<^verbatim>\<open>undefined\<close> is the omitted argument, which defaults to
  \<^verbatim>\<open>'error'\<close>.)
\<close>

theorem addNotification_non_error_noop:
  assumes "type \<noteq> JUndefined" and "type \<noteq> JStr ''error''"
  shows "addNotification now message type duration s = s"
proof -
  have "\<not> strict_eq_str type ''error''"
    using assms(2) by (cases type) auto
  then show ?thesis
    using assms(1) by (simp add: addNotification_def)
qed

theorem addNotification_non_error_noop_witness:
  "JStr ''success'' \<noteq> JUndefined \<and> JStr ''success'' \<noteq> JStr ''error'' \<and>
   addNotification 1700000000000 (JStr ''Saved'') (JStr ''success'') (Some 3000) app_init = app_init \<and>
   notifications (addNotification 1700000000000 (JStr ''Saved'') (JStr ''success'') (Some 3000) app_init) = [] \<and>
   removalTimers (addNotification 1700000000000 (JStr ''Saved'') (JStr ''success'') (Some 3000) app_init) = []"
  using addNotification_non_error_noop
          [of "JStr ''success''" 1700000000000 "JStr ''Saved''" "Some 3000" app_init]
  by (simp add: app_init_def)

text \<open>
  C7. Every notification that \<^verbatim>\<open>addNotification\<close> appends is to be removed by a click or
  by its 8-second timer, so that after \<^verbatim>\<open>removeNotification(id)\<close> no notification with that
  id is left. On the code, an error notification added at clock reading 1000 gets id 1000
  and a timer of 8000 ms; \<^verbatim>\<open>removeNotification(1000)\<close> itself, the timer callback and the
  click handler each leave the list as it was, still holding the notification whose id is
  1000: the filter compares each notification object, not its \<^verbatim>\<open>id\<close>, with the number.
\<close>

theorem removeNotification_keeps_notification:
  "notifications (addNotification 1000 (JStr ''Connection lost'') (JStr ''error'') None app_init)
     = [JObj [(''id'', JNum (Fin 1000)), (''message'', JStr ''Connection lost''),
              (''type'', JStr ''error''), (''timestamp'', JNum (Fin 1000))]] \<and>
   removalTimers (addNotification 1000 (JStr ''Connection lost'') (JStr ''error'') None app_init)
     = [(8000, 1000)] \<and>
   notifications (removeNotification 1000
       (addNotification 1000 (JStr ''Connection lost'') (JStr ''error'') None app_init))
     = [JObj [(''id'', JNum (Fin 1000)), (''message'', JStr ''Connection lost''),
              (''type'', JStr ''error''), (''timestamp'', JNum (Fin 1000))]] \<and>
   notifications (fireRemovalTimer 0
       (addNotification 1000 (JStr ''Connection lost'') (JStr ''error'') None app_init))
     = [JObj [(''id'', JNum (Fin 1000)), (''message'', JStr ''Connection lost''),
              (''type'', JStr ''error''), (''timestamp'', JNum (Fin 1000))]] \<and>
   notifications (clickNotification 0
       (addNotification 1000 (JStr ''Connection lost'') (JStr ''error'') None app_init))
     = [JObj [(''id'', JNum (Fin 1000)), (''message'', JStr ''Connection lost''),
              (''type'', JStr ''error''), (''timestamp'', JNum (Fin 1000))]]"
  by (simp add: addNotification_def removeNotification_def fireRemovalTimer_def
                clickNotification_def app_init_def)

section \<open>VideoService: results\<close>

lemma math_clamp_fin:
  "math_max (Fin lo) (math_min (Fin hi) (Fin x)) = Fin (max lo (min hi x))"
  by (auto simp: max_def min_def)

text \<open>
  C4, as stated: for every numeric \<open>x\<close> the stored quality after
  \<^verbatim>\<open>updateSettings({quality: x})\<close> is \<^verbatim>\<open>max(0.1, min(1.0, x))\<close>. For \<open>x = 0\<close> on a fresh
  service this fails: the guard \<^verbatim>\<open>if (settings.quality)\<close> skips the assignment, the quality
  stays at 0.8, and the clamp of 0 is 0.1.
\<close>

theorem video_quality_zero_not_clamped:
  "quality (video_updateSettings (only_quality (Fin 0)) video_init) = Fin 0.8 \<and>
   math_max (Fin 0.1) (math_min (Fin 1.0) (Fin 0)) = Fin 0.1 \<and>
   quality (video_updateSettings (only_quality (Fin 0)) video_init)
     \<noteq> math_max (Fin 0.1) (math_min (Fin 1.0) (Fin 0))"
  by (simp add: video_updateSettings_def only_quality_def video_init_def)

text \<open>
  C4, amended: for every settings object whose \<^verbatim>\<open>quality\<close> is a number \<open>x\<close>, the stored
  quality after \<^verbatim>\<open>updateSettings\<close> is \<^verbatim>\<open>max(0.1, min(1.0, x))\<close> when \<open>x\<close> is truthy (neither 0
  nor NaN), and is the quality stored before when \<open>x\<close> is 0 or NaN. For a finite \<open>x\<close> other
  than 0 this is the real number \<open>max 0.1 (min 1 x)\<close>.
\<close>

theorem video_updateSettings_quality:
  assumes "quality' settings = Some x"
  shows "(truthy x \<longrightarrow>
            quality (video_updateSettings settings v) = math_max (Fin 0.1) (math_min (Fin 1.0) x)) \<and>
         (\<not> truthy x \<longrightarrow> quality (video_updateSettings settings v) = quality v) \<and>
         (\<forall>r. x = Fin r \<and> r \<noteq> 0 \<longrightarrow>
            quality (video_updateSettings settings v) = Fin (max 0.1 (min 1 r)))"
proof -
  have q: "quality (video_updateSettings settings v) =
             (if truthy x then math_max (Fin 0.1) (math_min (Fin 1.0) x) else quality v)"
    using assms
    by (simp add: video_updateSettings_def startFrameCapture_def Let_def
             split: option.splits prod.splits)
  have "quality (video_updateSettings settings v) = Fin (max 0.1 (min 1 r))"
    if "x = Fin r" and "r \<noteq> 0" for r
    using that q math_clamp_fin[of "0.1" 1 r] by simp
  with q show ?thesis by simp
qed

theorem video_updateSettings_quality_witness:
  "quality' (only_quality (Fin 5)) = Some (Fin 5) \<and> truthy (Fin 5) \<and>
   quality (video_updateSettings (only_quality (Fin 5)) video_init) = Fin 1 \<and>
   quality' (only_quality (Fin 0.05)) = Some (Fin 0.05) \<and> truthy (Fin 0.05) \<and>
   quality (video_updateSettings (only_quality (Fin 0.05)) video_init) = Fin 0.1 \<and>
   quality' (only_quality NaN) = Some NaN \<and> \<not> truthy NaN \<and>
   quality (video_updateSettings (only_quality NaN) video_init) = Fin 0.8"
  using video_updateSettings_quality [of "only_quality (Fin 5)" "Fin 5" video_init]
        video_updateSettings_quality [of "only_quality (Fin 0.05)" "Fin 0.05" video_init]
        video_updateSettings_quality [of "only_quality NaN" NaN video_init]
  by (simp add: only_quality_def video_init_def)

section \<open>AudioService: results\<close>

subsection \<open>Rounding to a double\<close>

lemma pow2_nat: "0 \<le> e \<Longrightarrow> (2::real) powi e = 2 ^ nat e"
  by (simp add: power_int_def)

lemma pow2_neg: "0 \<le> e \<Longrightarrow> (2::real) powi (- e) = 1 / 2 ^ nat e"
  by (simp add: power_int_minus inverse_eq_divide power_int_def power_one_over)

lemma expo_bracket_ge1:
  assumes "1 \<le> a"
  shows "2 powi (bitlen \<lfloor>a\<rfloor> - 1) \<le> a \<and> a < 2 powi (bitlen \<lfloor>a::real\<rfloor> - 1 + 1)"
proof -
  let ?n = "\<lfloor>a\<rfloor>"
  let ?b = "bitlen ?n"
  have n: "0 < ?n" using assms by linarith
  have b: "1 \<le> ?b" using n bitlen_eq_zero_iff[of ?n] bitlen_nonneg[of ?n] by linarith
  have bnd: "2 ^ nat (?b - 1) \<le> ?n" "?n < 2 ^ nat ?b"
    using bitlen_bounds[OF n] by simp_all
  have "(2::real) powi (?b - 1) = of_int (2 ^ nat (?b - 1))"
    using b by (simp add: pow2_nat)
  also have "\<dots> \<le> of_int ?n" using bnd(1) by (simp only: of_int_le_iff)
  also have "\<dots> \<le> a" by simp
  finally have lo: "2 powi (?b - 1) \<le> a" .
  have "?n + 1 \<le> 2 ^ nat ?b" using bnd(2) by simp
  then have "(of_int (?n + 1) :: real) \<le> of_int (2 ^ nat ?b)" by (simp only: of_int_le_iff)
  moreover have "a < of_int (?n + 1)" by linarith
  ultimately have "a < of_int (2 ^ nat ?b)" by linarith
  also have "\<dots> = (2::real) powi ?b" using b by (simp add: pow2_nat)
  finally have "a < 2 powi (?b - 1 + 1)" by simp
  with lo show ?thesis by blast
qed

lemma expo_bracket_lt1:
  assumes "0 < a" "a < 1"
  shows "2 powi (- bitlen (\<lceil>1 / a\<rceil> - 1)) \<le> a \<and> a < 2 powi (- bitlen (\<lceil>1 / a::real\<rceil> - 1) + 1)"
proof -
  let ?y = "1 / a"
  let ?m = "\<lceil>?y\<rceil> - 1"
  let ?b = "bitlen ?m"
  have y: "1 < ?y" using assms by simp
  have m: "0 < ?m" using y by linarith
  have b: "1 \<le> ?b" using m bitlen_eq_zero_iff[of ?m] bitlen_nonneg[of ?m] by linarith
  have bnd: "2 ^ nat (?b - 1) \<le> ?m" "?m < 2 ^ nat ?b"
    using bitlen_bounds[OF m] by simp_all
  have my: "of_int ?m < ?y" "?y \<le> of_int ?m + 1" by linarith+
  have "?m + 1 \<le> 2 ^ nat ?b" using bnd(2) by simp
  then have "(of_int (?m + 1) :: real) \<le> of_int (2 ^ nat ?b)" by (simp only: of_int_le_iff)
  moreover have "?y \<le> of_int (?m + 1)" using my(2) by simp
  ultimately have "?y \<le> of_int (2 ^ nat ?b)" by linarith
  then have yb: "?y \<le> 2 ^ nat ?b" by simp
  have "(2::real) powi (- ?b) = 1 / 2 ^ nat ?b" using b by (simp add: pow2_neg)
  also have "\<dots> \<le> 1 / ?y" using yb y assms by (intro divide_left_mono) auto
  also have "\<dots> = a" by simp
  finally have lo: "2 powi (- ?b) \<le> a" .
  have "(of_int (2 ^ nat (?b - 1)) :: real) \<le> of_int ?m" using bnd(1) by (simp only: of_int_le_iff)
  then have "of_int (2 ^ nat (?b - 1)) < ?y" using my(1) by linarith
  then have yl: "2 ^ nat (?b - 1) < ?y" by simp
  have "a = 1 / ?y" by simp
  also have "\<dots> < 1 / 2 ^ nat (?b - 1)" using yl assms by (intro divide_strict_left_mono) auto
  also have "\<dots> = (2::real) powi (- (?b - 1))" using b pow2_neg[of "?b - 1"] by simp
  finally have "a < 2 powi (- ?b + 1)" by simp
  with lo show ?thesis by blast
qed

lemma expo_bracket:
  assumes "x \<noteq> 0"
  shows "2 powi expo x \<le> \<bar>x\<bar> \<and> \<bar>x\<bar> < 2 powi (expo x + 1)"
proof (cases "1 \<le> \<bar>x\<bar>")
  case True
  then show ?thesis using expo_bracket_ge1[of "\<bar>x\<bar>"] by (simp add: expo_def)
next
  case False
  then have "0 < \<bar>x\<bar>" "\<bar>x\<bar> < 1" using assms by auto
  then show ?thesis using expo_bracket_lt1[of "\<bar>x\<bar>"] False by (simp add: expo_def)
qed

lemma expo_unique:
  assumes "2 powi e \<le> \<bar>x\<bar>" "\<bar>x\<bar> < 2 powi (e + 1)"
  shows "expo x = e"
proof -
  have nz: "x \<noteq> 0"
  proof
    assume "x = 0"
    then have "(2::real) powi e \<le> 0" using assms(1) by simp
    moreover have "0 < (2::real) powi e" by simp
    ultimately show False by linarith
  qed
  note b = expo_bracket[OF nz]
  have "(2::real) powi expo x < 2 powi (e + 1)" using b assms by linarith
  then have 1: "expo x < e + 1"
    using power_int_increasing[of "e + 1" "expo x" "2::real"] by (cases "expo x < e + 1") auto
  have "(2::real) powi e < 2 powi (expo x + 1)" using b assms by linarith
  then have 2: "e < expo x + 1"
    using power_int_increasing[of "expo x + 1" e "2::real"] by (cases "e < expo x + 1") auto
  from 1 2 show ?thesis by linarith
qed

lemma round_half_even_bound: "\<bar>of_int (round_half_even y) - y\<bar> \<le> 1 / 2"
  unfolding round_half_even_def Let_def by (auto; linarith)

lemma round_half_even_ge: "of_int n \<le> y \<Longrightarrow> n \<le> round_half_even y"
  unfolding round_half_even_def Let_def by (auto simp: le_floor_iff; linarith)

lemma round_half_even_unique:
  assumes "\<bar>y - of_int k\<bar> < 1 / 2"
  shows "round_half_even y = k"
proof -
  have "\<lfloor>y\<rfloor> = k \<or> \<lfloor>y\<rfloor> = k - 1" using assms by linarith
  then show ?thesis
  proof
    assume f: "\<lfloor>y\<rfloor> = k"
    then have "y - of_int \<lfloor>y\<rfloor> < 1 / 2" using assms by linarith
    then show ?thesis using f by (simp add: round_half_even_def)
  next
    assume f: "\<lfloor>y\<rfloor> = k - 1"
    then have "1 / 2 < y - of_int \<lfloor>y\<rfloor>" using assms by linarith
    then show ?thesis using f by (simp add: round_half_even_def)
  qed
qed

lemma abs_scale:
  fixes u :: real
  assumes "0 < u"
  shows "\<bar>a - x / u\<bar> * u = \<bar>a * u - x\<bar>"
proof -
  have "\<bar>a - x / u\<bar> * u = \<bar>(a - x / u) * u\<bar>"
    using assms by (simp add: abs_mult)
  also have "(a - x / u) * u = a * u - x"
    using assms by (simp add: field_simps)
  finally show ?thesis .
qed

lemma to_double_normal:
  assumes lo: "2 powi (- 1022) \<le> x" and hi: "x \<le> 2 powi 1023"
  shows "\<exists>y. to_double x = Fin y \<and> 2 powi expo x \<le> y \<and> \<bar>y - x\<bar> \<le> x / 2 ^ 53 \<and>
             x \<le> y + y / 2 ^ 53"
proof -
  have p: "0 < (2::real) powi (- 1022)" by simp
  have pos: "0 < x" using lo p by linarith
  then have nz: "x \<noteq> 0" by simp
  let ?e = "expo x"
  have br: "2 powi ?e \<le> x" "x < 2 powi (?e + 1)"
    using expo_bracket[OF nz] pos by simp_all
  have "(2::real) powi (- 1022) < 2 powi (?e + 1)" using lo br(2) by linarith
  then have e: "- 1022 \<le> ?e"
    using power_int_increasing[of "?e + 1" "- 1022" "2::real"] by (cases "- 1022 < ?e + 1") auto
  then have mx: "max ?e (- 1022) = ?e" by simp
  let ?u = "(2::real) powi (?e - 52)"
  have u: "?u = 2 powi ?e / 2 ^ 52"
    by (simp add: power_int_diff)
  have upos: "0 < ?u" by simp
  let ?k = "round_half_even (x / ?u)"
  let ?y = "of_int ?k * ?u"
  have "\<bar>of_int ?k - x / ?u\<bar> \<le> 1 / 2" by (rule round_half_even_bound)
  then have "\<bar>of_int ?k - x / ?u\<bar> * ?u \<le> 1 / 2 * ?u"
    using upos by (intro mult_right_mono) auto
  moreover have "\<bar>of_int ?k - x / ?u\<bar> * ?u = \<bar>?y - x\<bar>"
    using upos by (rule abs_scale)
  ultimately have d: "\<bar>?y - x\<bar> \<le> ?u / 2" by simp
  have "?u \<le> x / 2 ^ 52" unfolding u using br(1) by (intro divide_right_mono) auto
  then have u2: "?u / 2 \<le> x / 2 ^ 53" by simp
  have err: "\<bar>?y - x\<bar> \<le> x / 2 ^ 53" using d u2 by linarith
  define c :: real where "c = 2 ^ 52"
  have cu: "c * ?u = 2 powi ?e" unfolding u c_def by simp
  have cint: "c = of_int (2 ^ 52)" by (simp add: c_def)
  have "c * ?u \<le> x" using br(1) cu by linarith
  then have "c \<le> x / ?u" using upos by (simp add: le_divide_eq)
  then have "of_int (2 ^ 52) \<le> x / ?u" unfolding cint .
  then have "2 ^ 52 \<le> ?k" by (rule round_half_even_ge)
  then have "(of_int (2 ^ 52) :: real) \<le> of_int ?k" by (simp only: of_int_le_iff)
  then have "c \<le> of_int ?k" unfolding cint .
  then have "c * ?u \<le> ?y" using upos by (intro mult_right_mono) auto
  then have ylo: "2 powi ?e \<le> ?y" using cu by linarith
  have ypos: "0 < ?y" using ylo zero_less_power_int[of "2::real" ?e] by linarith
  have "?y \<le> x + x / 2 ^ 53" using err by linarith
  also have "\<dots> \<le> 2 powi 1023 + 2 powi 1023 / 2 ^ 53"
    using hi by (intro add_mono divide_right_mono) auto
  also have "\<dots> < 2 powi 1024" by simp
  finally have nov: "\<not> 2 powi 1024 \<le> \<bar>?y\<bar>" using ypos by simp
  have "?u / 2 = 2 powi ?e / 2 ^ 53" unfolding u by simp
  also have "\<dots> \<le> ?y / 2 ^ 53" using ylo by (intro divide_right_mono) auto
  finally have "?u / 2 \<le> ?y / 2 ^ 53" .
  then have low: "x \<le> ?y + ?y / 2 ^ 53" using d by linarith
  have "to_double x = Fin ?y"
    using nz mx nov by (simp add: to_double_def Let_def)
  with ylo err low show ?thesis by blast
qed

lemma rounding_ge1: "1 \<le> rounding" by (simp add: rounding_def)
lemma rounding_pos: "0 < rounding" by (simp add: rounding_def)

lemma to_double_range:
  assumes lo: "2 powi L \<le> x" and hi: "x \<le> 2 powi 1023" and L: "- 1022 \<le> L"
  shows "\<exists>y. to_double x = Fin y \<and> 2 powi L \<le> y \<and> y \<le> x * rounding \<and> x \<le> y * rounding"
proof -
  have "(2::real) powi (- 1022) \<le> 2 powi L"
    using L by (intro power_int_increasing) auto
  then have lo': "2 powi (- 1022) \<le> x" using lo by linarith
  obtain y where y: "to_double x = Fin y" "2 powi expo x \<le> y" "\<bar>y - x\<bar> \<le> x / 2 ^ 53"
      "x \<le> y + y / 2 ^ 53"
    using to_double_normal[OF lo' hi] by blast
  have pos: "0 < x" using lo zero_less_power_int[of "2::real" L] by linarith
  have "(2::real) powi L < 2 powi (expo x + 1)"
    using expo_bracket[of x] pos lo by auto
  then have "L < expo x + 1"
    using power_int_increasing[of "expo x + 1" L "2::real"] by (cases "L < expo x + 1") auto
  then have "(2::real) powi L \<le> 2 powi expo x"
    by (intro power_int_increasing) auto
  then have 1: "2 powi L \<le> y" using y(2) by linarith
  have "y \<le> x + x / 2 ^ 53" using y(3) by linarith
  also have "\<dots> = x * rounding" by (simp add: rounding_def algebra_simps)
  finally have 2: "y \<le> x * rounding" .
  have "y + y / 2 ^ 53 = y * rounding" by (simp add: rounding_def algebra_simps)
  with y(4) have 3: "x \<le> y * rounding" by (simp only:)
  from y(1) 1 2 3 show ?thesis by blast
qed

lemma one_plus_power_bound:
  fixes u :: real
  assumes "0 \<le> u"
  shows "2 * real m * u \<le> 1 \<Longrightarrow> (1 + u) ^ m \<le> 1 + 2 * real m * u"
proof (induction m)
  case 0
  then show ?case by simp
next
  case (Suc m)
  have "2 * real m * u \<le> 2 * real (Suc m) * u"
    using assms by (intro mult_right_mono) auto
  then have h: "2 * real m * u \<le> 1" using Suc.prems by linarith
  have ih: "(1 + u) ^ m \<le> 1 + 2 * real m * u" using Suc.IH h by simp
  have "(1 + u) ^ Suc m = (1 + u) ^ m * (1 + u)" by simp
  also have "\<dots> \<le> (1 + 2 * real m * u) * (1 + u)"
    using ih assms by (intro mult_right_mono) auto
  also have "\<dots> = 1 + 2 * real m * u + u + (2 * real m * u) * u"
    by (simp add: algebra_simps)
  also have "\<dots> \<le> 1 + 2 * real m * u + u + 1 * u"
    using h assms by (intro add_left_mono mult_right_mono) auto
  also have "\<dots> = 1 + 2 * real (Suc m) * u" by (simp add: algebra_simps)
  finally show ?case .
qed

lemma rounding_power_le2: "m \<le> 2 ^ 33 \<Longrightarrow> rounding ^ m \<le> 2"
proof -
  assume m: "m \<le> 2 ^ 33"
  then have r: "real m \<le> 2 ^ 33" by (metis of_nat_le_iff of_nat_numeral of_nat_power)
  have "2 * real m * (1 / 2 ^ 53) \<le> 2 * 2 ^ 33 * (1 / 2 ^ 53)"
    using r by (intro mult_right_mono mult_left_mono) auto
  then have h: "2 * real m * (1 / 2 ^ 53) \<le> 1" by simp
  have "(1 + 1 / 2 ^ 53) ^ m \<le> 1 + 2 * real m * (1 / 2 ^ 53)"
    using h by (intro one_plus_power_bound) auto
  with h show ?thesis unfolding rounding_def by linarith
qed

lemma to_double_zero: "to_double 0 = Fin 0"
  by (simp add: to_double_def)

subsection \<open>The rounded square root\<close>

lemma isqrt_correct:
  "0 \<le> n \<Longrightarrow> 0 \<le> isqrt n \<and> isqrt n * isqrt n \<le> n \<and> n < (isqrt n + 1) * (isqrt n + 1)"
proof (induction n rule: isqrt.induct)
  case (1 n)
  show ?case
  proof (cases "n \<le> 0")
    case True
    then have "n = 0" using "1.prems" by simp
    then show ?thesis by (simp add: isqrt.simps)
  next
    case False
    let ?s = "isqrt (n div 4)"
    have d: "0 \<le> n div 4" using "1.prems" by simp
    have ih: "0 \<le> ?s" "?s * ?s \<le> n div 4" "n div 4 < (?s + 1) * (?s + 1)"
      using "1.IH"[OF False d] by simp_all
    have a: "(2 * ?s) * (2 * ?s) \<le> n"
    proof -
      have "4 * (?s * ?s) \<le> 4 * (n div 4)" using ih(2) by simp
      also have "\<dots> \<le> n" by simp
      finally show ?thesis by (simp add: algebra_simps)
    qed
    have b: "n < (2 * ?s + 2) * (2 * ?s + 2)"
    proof -
      have "n div 4 + 1 \<le> (?s + 1) * (?s + 1)" using ih(3) by simp
      then have "4 * (n div 4 + 1) \<le> 4 * ((?s + 1) * (?s + 1))" by simp
      moreover have "n < 4 * (n div 4 + 1)" by simp
      ultimately have "n < 4 * ((?s + 1) * (?s + 1))" by linarith
      then show ?thesis by (simp add: algebra_simps)
    qed
    show ?thesis
    proof (cases "(2 * ?s + 1) * (2 * ?s + 1) \<le> n")
      case True
      then have "isqrt n = 2 * ?s + 1" using False by (subst isqrt.simps) (simp add: Let_def)
      then show ?thesis using True b ih(1) by (simp add: algebra_simps)
    next
      case F2: False
      then have "isqrt n = 2 * ?s" using False by (subst isqrt.simps) (simp add: Let_def)
      then show ?thesis using F2 a ih(1) by (simp add: algebra_simps)
    qed
  qed
qed

lemma floor_sqrt:
  assumes "0 \<le> w"
  shows "\<lfloor>sqrt w\<rfloor> = isqrt \<lfloor>w\<rfloor>"
proof -
  let ?N = "\<lfloor>w\<rfloor>"
  let ?s = "isqrt ?N"
  have N0: "0 \<le> ?N" using assms by simp
  have N: "of_int ?N \<le> w" "w < of_int ?N + 1" by linarith+
  have c: "0 \<le> ?s" "?s * ?s \<le> ?N" "?N < (?s + 1) * (?s + 1)"
    using isqrt_correct[OF N0] by simp_all
  have "(of_int (?s * ?s) :: real) \<le> of_int ?N" using c(2) by (simp only: of_int_le_iff)
  moreover have "(of_int (?s * ?s) :: real) = (of_int ?s)\<^sup>2" by (simp add: power2_eq_square)
  ultimately have "(of_int ?s)\<^sup>2 \<le> w" using N(1) by linarith
  then have lo: "of_int ?s \<le> sqrt w" by (rule real_le_rsqrt)
  have "?N + 1 \<le> (?s + 1) * (?s + 1)" using c(3) by simp
  then have h1: "(of_int (?N + 1) :: real) \<le> of_int ((?s + 1) * (?s + 1))"
    by (simp only: of_int_le_iff)
  have h2: "(of_int ((?s + 1) * (?s + 1)) :: real) = (of_int ?s + 1)\<^sup>2"
    by (simp add: power2_eq_square algebra_simps)
  have h3: "(of_int (?N + 1) :: real) = of_int ?N + 1" by simp
  have "w < (of_int ?s + 1)\<^sup>2" using N(2) h1 h2 h3 by linarith
  moreover have "(0::real) \<le> of_int ?s + 1" using c(1) by simp
  ultimately have hi: "sqrt w < of_int ?s + 1" by (intro real_less_lsqrt) auto
  show ?thesis using lo hi by (simp add: floor_eq_iff)
qed

lemma sqrt_less_iff:
  assumes "0 \<le> c"
  shows "sqrt w < c \<longleftrightarrow> w < c * c" and "c < sqrt w \<longleftrightarrow> c * c < w"
proof -
  have c: "sqrt (c * c) = c" using assms by simp
  show "sqrt w < c \<longleftrightarrow> w < c * c"
    using real_sqrt_less_iff[of w "c * c"] c by simp
  show "c < sqrt w \<longleftrightarrow> c * c < w"
    using real_sqrt_less_iff[of "c * c" w] c by simp
qed

lemma pow2_square: "(2::real) powi m * 2 powi m = 2 powi (2 * m)"
proof -
  have "(2::real) powi (m + m) = 2 powi m * 2 powi m"
    by (rule power_int_add) simp
  then show ?thesis by (simp only: mult_2)
qed

lemma expo_sqrt:
  assumes "0 < x"
  shows "expo (sqrt x) = expo x div 2"
proof -
  let ?E = "expo x"
  let ?m = "?E div 2"
  have br: "2 powi ?E \<le> x" "x < 2 powi (?E + 1)"
    using expo_bracket[of x] assms by simp_all
  have "(2::real) powi (2 * ?m) \<le> 2 powi ?E"
    by (intro power_int_increasing) auto
  then have "(2 powi ?m)\<^sup>2 \<le> x"
    using br(1) by (simp add: power2_eq_square pow2_square)
  then have lo: "2 powi ?m \<le> sqrt x" by (rule real_le_rsqrt)
  have "(2::real) powi (?E + 1) \<le> 2 powi (2 * (?m + 1))"
    by (intro power_int_increasing) auto
  then have "x < (2 powi (?m + 1))\<^sup>2"
    using br(2) by (simp add: power2_eq_square pow2_square)
  then have hi: "sqrt x < 2 powi (?m + 1)" by (intro real_less_lsqrt) auto
  have "0 \<le> sqrt x" using assms by simp
  then show ?thesis using lo hi by (intro expo_unique) auto
qed

lemma round_half_even_sqrt:
  assumes "0 \<le> w"
  shows "round_half_even (sqrt w) =
     (let f = isqrt \<lfloor>w\<rfloor>;
          h = (of_int f + 1 / 2) * (of_int f + 1 / 2)
      in if w < h then f else if h < w then f + 1 else if even f then f else f + 1)"
proof -
  let ?f = "isqrt \<lfloor>w\<rfloor>"
  let ?c = "of_int ?f + 1 / 2 :: real"
  have f: "\<lfloor>sqrt w\<rfloor> = ?f" using assms by (rule floor_sqrt)
  have "0 \<le> ?f" using isqrt_correct[of "\<lfloor>w\<rfloor>"] assms by simp
  then have c: "0 \<le> ?c" by simp
  have "sqrt w - of_int ?f < 1 / 2 \<longleftrightarrow> sqrt w < ?c" by auto
  then have 1: "sqrt w - of_int ?f < 1 / 2 \<longleftrightarrow> w < ?c * ?c"
    using sqrt_less_iff(1)[OF c, of w] by (simp only:)
  have "1 / 2 < sqrt w - of_int ?f \<longleftrightarrow> ?c < sqrt w" by auto
  then have 2: "1 / 2 < sqrt w - of_int ?f \<longleftrightarrow> ?c * ?c < w"
    using sqrt_less_iff(2)[OF c, of w] by (simp only:)
  show ?thesis
    unfolding round_half_even_def f Let_def 1 2 ..
qed

lemma to_double_sqrt:
  assumes "0 < x"
  shows "to_double (sqrt x) = sqrt_to_double x"
proof -
  let ?e = "max (expo x div 2) (- 1022)"
  let ?u = "(2::real) powi (?e - 52)"
  let ?w = "x / (?u * ?u)"
  have upos: "0 < ?u" by simp
  have z: "sqrt x \<noteq> 0" "0 < sqrt x" using assms by simp_all
  have w0: "0 \<le> ?w" using assms by simp
  have su: "sqrt x / ?u = sqrt ?w"
    using upos by (simp add: real_sqrt_divide real_sqrt_mult)
  let ?k = "round_half_even (sqrt ?w)"
  have k0: "0 \<le> ?k"
    using round_half_even_ge[of 0 "sqrt ?w"] w0 by simp
  then have y0: "0 \<le> of_int ?k * ?u" by simp
  have td: "to_double (sqrt x) =
              (if 2 powi 1024 \<le> of_int ?k * ?u then PosInf else Fin (of_int ?k * ?u))"
    by (simp only: to_double_def z if_False if_True Let_def expo_sqrt[OF assms] su
          abs_of_nonneg[OF y0])
  have "sqrt_to_double x =
          (if 2 powi 1024 \<le> of_int ?k * ?u then PosInf else Fin (of_int ?k * ?u))"
    by (simp only: sqrt_to_double_def round_half_even_sqrt[OF w0] Let_def)
  with td show ?thesis by (simp only:)
qed

lemma math_sqrt_code:
  "math_sqrt (Fin x) = (if x < 0 then NaN else if x = 0 then Fin 0 else sqrt_to_double x)"
proof (cases "0 < x")
  case True
  then show ?thesis using to_double_sqrt[OF True] by simp
next
  case False
  then show ?thesis by (cases "x = 0") (simp_all add: to_double_zero)
qed

lemma math_sqrt_code_all [code]:
  "math_sqrt (Fin x) = (if x < 0 then NaN else if x = 0 then Fin 0 else sqrt_to_double x)"
  "math_sqrt PosInf = PosInf"
  "math_sqrt NegInf = NaN"
  "math_sqrt NaN = NaN"
  using math_sqrt_code[of x] by simp_all

subsection \<open>The computed RMS against the exact one\<close>

text \<open>
  The square of a sample of single-precision magnitude is 0 or in the normal range of the
  doubles, far from overflow; so is every partial sum of up to \<open>2 ^ 32\<close> of them. Each
  rounding then changes its result by a factor of at most \<open>rounding\<close>.
\<close>

lemma square_step:
  assumes "float32_magnitude x"
  shows "\<exists>p. to_double (x * x) = Fin p \<and> (p = 0 \<or> 2 powi (- 298) \<le> p) \<and> 0 \<le> p \<and>
             p \<le> x * x * rounding \<and> x * x \<le> p * rounding \<and> x * x \<le> 2 powi 256"
proof (cases "x = 0")
  case True
  then show ?thesis by (simp add: to_double_zero)
next
  case False
  then have m: "2 powi (- 149) \<le> \<bar>x\<bar>" "\<bar>x\<bar> < 2 powi 128"
    using assms by (simp_all add: float32_magnitude_def)
  have sq: "x * x = \<bar>x\<bar> * \<bar>x\<bar>" by simp
  have "(2::real) powi (- 149) * 2 powi (- 149) \<le> \<bar>x\<bar> * \<bar>x\<bar>"
    using m(1) by (intro mult_mono) auto
  then have lo: "2 powi (- 298) \<le> x * x" unfolding sq by simp
  have "\<bar>x\<bar> * \<bar>x\<bar> \<le> 2 powi 128 * 2 powi 128"
    using m(2) by (intro mult_mono) auto
  then have hi: "x * x \<le> 2 powi 256" unfolding sq by simp
  then have hi': "x * x \<le> 2 powi 1023" by simp
  obtain p where p: "to_double (x * x) = Fin p" "2 powi (- 298) \<le> p" "p \<le> x * x * rounding"
      "x * x \<le> p * rounding"
    using to_double_range[OF lo hi'] by auto
  have "0 \<le> p" using p(2) zero_less_power_int[of "2::real" "- 298"] by linarith
  with p hi show ?thesis by blast
qed

lemma add_step:
  assumes "a = 0 \<or> 2 powi (- 298) \<le> a" and "p = 0 \<or> 2 powi (- 298) \<le> p"
    and "0 \<le> a" and "0 \<le> p" and "a + p \<le> 2 powi 1023"
  shows "\<exists>s. js_add (Fin a) (Fin p) = Fin s \<and> (s = 0 \<or> 2 powi (- 298) \<le> s) \<and> 0 \<le> s \<and>
             s \<le> (a + p) * rounding \<and> a + p \<le> s * rounding"
proof (cases "a + p = 0")
  case True
  then show ?thesis by (simp add: to_double_zero)
next
  case False
  then have "2 powi (- 298) \<le> a + p" using assms(1-4) by auto
  then obtain s where s: "to_double (a + p) = Fin s" "2 powi (- 298) \<le> s"
      "s \<le> (a + p) * rounding" "a + p \<le> s * rounding"
    using to_double_range[OF _ assms(5), of "- 298"] by auto
  have "0 \<le> s" using s(2) zero_less_power_int[of "2::real" "- 298"] by linarith
  with s show ?thesis by auto
qed

text \<open>
  The loop after \<open>j\<close> samples, whose squares sum exactly to \<open>A\<close>, with \<open>a\<close> in \<^verbatim>\<open>sum\<close>:
  \<open>a\<close> and \<open>A\<close> differ by a factor of at most \<open>rounding ^ (2 * j)\<close>, and the rest of the
  loop keeps that relation.
\<close>

lemma fold_bound:
  assumes "\<forall>x \<in> set xs. float32_magnitude x"
    and "a = 0 \<or> 2 powi (- 298) \<le> a" and "0 \<le> a" and "0 \<le> A"
    and "a \<le> A * rounding ^ (2 * j)" and "A \<le> a * rounding ^ (2 * j)"
    and "A \<le> real j * 2 powi 256"
    and "j + length xs \<le> 2 ^ 32"
  shows "\<exists>s. fold (\<lambda>x sum. js_add sum (to_double (x * x))) xs (Fin a) = Fin s \<and>
             (s = 0 \<or> 2 powi (- 298) \<le> s) \<and> 0 \<le> s \<and>
             s \<le> (A + (\<Sum>x\<leftarrow>xs. x * x)) * rounding ^ (2 * (j + length xs)) \<and>
             A + (\<Sum>x\<leftarrow>xs. x * x) \<le> s * rounding ^ (2 * (j + length xs)) \<and>
             A + (\<Sum>x\<leftarrow>xs. x * x) \<le> real (j + length xs) * 2 powi 256"
  using assms
proof (induction xs arbitrary: a A j)
  case Nil
  then show ?case by simp
next
  case (Cons x xs)
  have fx: "float32_magnitude x" using Cons.prems(1) by simp
  obtain p where p: "to_double (x * x) = Fin p" "p = 0 \<or> 2 powi (- 298) \<le> p" "0 \<le> p"
      "p \<le> x * x * rounding" "x * x \<le> p * rounding" "x * x \<le> 2 powi 256"
    using square_step[OF fx] by blast
  have j: "j < 2 ^ 32" using Cons.prems(8) by simp
  then have j2: "2 * j \<le> 2 ^ 33" by simp
  have gj: "rounding ^ (2 * j) \<le> 2" using j2 by (rule rounding_power_le2)
  have gj1: "1 \<le> rounding ^ (2 * j)" using rounding_ge1 by (rule one_le_power)
  have rj: "real j \<le> 2 ^ 32"
    using j by (metis less_imp_le of_nat_le_iff of_nat_numeral of_nat_power)
  have "A \<le> 2 ^ 32 * 2 powi 256"
    using Cons.prems(7) rj by (meson mult_right_mono order_trans zero_le_power_int zero_le_numeral)
  then have A: "A \<le> 2 powi 288" by simp
  have "a \<le> A * 2" using Cons.prems(5) gj Cons.prems(4)
    by (meson mult_left_mono order_trans)
  then have a: "a \<le> 2 powi 289" using A by simp
  have "p \<le> 2 powi 256 * rounding"
    using p(4,6) rounding_pos by (meson mult_right_mono order_trans less_imp_le)
  moreover have "rounding \<le> 2" using rounding_power_le2[of 1] by simp
  ultimately have "p \<le> 2 powi 256 * 2"
    by (meson mult_left_mono order_trans zero_le_power_int zero_le_numeral)
  then have pb: "p \<le> 2 powi 257" by simp
  have "a + p \<le> 2 powi 289 + 2 powi 257" using a pb by linarith
  also have "\<dots> \<le> 2 powi 1023" by simp
  finally have ap: "a + p \<le> 2 powi 1023" .
  obtain s where s: "js_add (Fin a) (Fin p) = Fin s" "s = 0 \<or> 2 powi (- 298) \<le> s" "0 \<le> s"
      "s \<le> (a + p) * rounding" "a + p \<le> s * rounding"
    using add_step[OF Cons.prems(2) p(2) Cons.prems(3) p(3) ap] by blast
  have xx: "0 \<le> x * x" by simp
  define G where "G = rounding ^ (2 * j)"
  define B where "B = A * G"
  have G1: "1 \<le> G" using gj1 by (simp add: G_def)
  have B0: "0 \<le> B" using Cons.prems(4) G1 by (simp add: B_def)
  have aB: "a \<le> B" using Cons.prems(5) by (simp add: B_def G_def)
  have Gpow: "G * rounding * rounding = rounding ^ (2 * (j + 1))" by (simp add: G_def)
  have "a + p \<le> B + x * x * rounding" using aB p(4) by linarith
  then have "(a + p) * rounding \<le> (B + x * x * rounding) * rounding"
    using rounding_pos by (intro mult_right_mono) auto
  then have 1: "s \<le> B * rounding + x * x * rounding * rounding"
    using s(4) by (simp add: algebra_simps)
  have "B * rounding * 1 \<le> B * rounding * rounding"
    using B0 rounding_pos rounding_ge1 by (intro mult_left_mono) auto
  then have 2: "B * rounding \<le> B * rounding * rounding" by simp
  have "x * x * 1 \<le> x * x * G" using xx G1 by (intro mult_left_mono) auto
  then have "x * x * 1 * (rounding * rounding) \<le> x * x * G * (rounding * rounding)"
    using rounding_pos by (intro mult_right_mono) auto
  then have 3: "x * x * rounding * rounding \<le> x * x * G * rounding * rounding"
    by (simp add: algebra_simps)
  have "s \<le> B * rounding * rounding + x * x * G * rounding * rounding" using 1 2 3 by linarith
  also have "\<dots> = (A + x * x) * (G * rounding * rounding)" by (simp add: B_def algebra_simps)
  finally have sb: "s \<le> (A + x * x) * rounding ^ (2 * (j + 1))" unfolding Gpow .
  have aG0: "0 \<le> a * G" using Cons.prems(3) G1 by simp
  have AaG: "A \<le> a * G" using Cons.prems(6) by (simp add: G_def)
  have "a * G * 1 \<le> a * G * rounding"
    using aG0 rounding_ge1 by (intro mult_left_mono) auto
  then have 4: "A \<le> a * G * rounding" using AaG by simp
  have pr0: "0 \<le> p * rounding" using p(3) rounding_pos by simp
  have "p * rounding * 1 \<le> p * rounding * G" using pr0 G1 by (intro mult_left_mono) auto
  then have 5: "x * x \<le> p * rounding * G" using p(5) by simp
  have "A + x * x \<le> (a + p) * (G * rounding)" using 4 5 by (simp add: algebra_simps)
  also have "\<dots> \<le> (s * rounding) * (G * rounding)"
    using s(5) G1 rounding_pos by (intro mult_right_mono) auto
  also have "\<dots> = s * (G * rounding * rounding)" by (simp add: algebra_simps)
  finally have sl: "A + x * x \<le> s * rounding ^ (2 * (j + 1))" unfolding Gpow .
  have "A + x * x \<le> real j * 2 powi 256 + 1 * 2 powi 256"
    using Cons.prems(7) p(6) by linarith
  also have "\<dots> = real (j + 1) * 2 powi 256" by (simp add: algebra_simps)
  finally have Ab: "A + x * x \<le> real (j + 1) * 2 powi 256" .
  have A0: "0 \<le> A + x * x" using Cons.prems(4) xx by linarith
  have len: "(j + 1) + length xs \<le> 2 ^ 32" using Cons.prems(8) by simp
  have fl: "\<forall>x \<in> set xs. float32_magnitude x" using Cons.prems(1) by simp
  obtain s' where s': "fold (\<lambda>x sum. js_add sum (to_double (x * x))) xs (Fin s) = Fin s'"
      "s' = 0 \<or> 2 powi (- 298) \<le> s'" "0 \<le> s'"
      "s' \<le> (A + x * x + (\<Sum>x\<leftarrow>xs. x * x)) * rounding ^ (2 * ((j + 1) + length xs))"
      "A + x * x + (\<Sum>x\<leftarrow>xs. x * x) \<le> s' * rounding ^ (2 * ((j + 1) + length xs))"
      "A + x * x + (\<Sum>x\<leftarrow>xs. x * x) \<le> real ((j + 1) + length xs) * 2 powi 256"
    using Cons.IH[OF fl s(2) s(3) A0 sb sl Ab len] by blast
  have f: "fold (\<lambda>x sum. js_add sum (to_double (x * x))) (x # xs) (Fin a) = Fin s'"
    using s'(1) s(1) p(1) by simp
  have e1: "A + x * x + (\<Sum>x\<leftarrow>xs. x * x) = A + (\<Sum>x\<leftarrow>(x # xs). x * x)"
    by simp
  have e2: "(j + 1) + length xs = j + length (x # xs)" by simp
  from s'(4) have u: "s' \<le> (A + (\<Sum>x\<leftarrow>(x # xs). x * x)) * rounding ^ (2 * (j + length (x # xs)))"
    unfolding e1 e2 .
  from s'(5) have l: "A + (\<Sum>x\<leftarrow>(x # xs). x * x) \<le> s' * rounding ^ (2 * (j + length (x # xs)))"
    unfolding e1 e2 .
  from s'(6) have b: "A + (\<Sum>x\<leftarrow>(x # xs). x * x) \<le> real (j + length (x # xs)) * 2 powi 256"
    unfolding e1 e2 .
  from f s'(2,3) u l b show ?case by blast
qed

text \<open>Reading finite samples: the loop on \<open>map Fin xs\<close> squares and adds the reals \<open>xs\<close>.\<close>

lemma fold_map_Fin:
  "fold (\<lambda>x sum. js_add sum (js_mul x x)) (map Fin xs) acc =
   fold (\<lambda>x sum. js_add sum (to_double (x * x))) xs acc"
  by (induction xs arbitrary: acc) simp_all

lemma js_gt_mono: "js_gt (Fin r) t \<Longrightarrow> r \<le> r' \<Longrightarrow> js_gt (Fin r') t"
  by (cases t) auto

text \<open>
  The value of \<^verbatim>\<open>rms\<close> that \<^verbatim>\<open>detectVoiceActivity\<close> computes on \<open>n\<close> finite samples of
  single-precision magnitude is finite and within the factor \<open>rounding ^ (n + 2)\<close> of their
  exact root mean square, above and below.
\<close>

lemma rms_bound:
  assumes fl: "\<forall>x \<in> set xs. float32_magnitude x" and len: "length xs \<le> 2 ^ 32" and ne: "xs \<noteq> []"
  shows "\<exists>r. rms (map Fin xs) = Fin r \<and> 0 \<le> r \<and>
             r \<le> root_mean_square xs * rounding ^ (length xs + 2) \<and>
             root_mean_square xs \<le> r * rounding ^ (length xs + 2)"
proof -
  let ?n = "length xs"
  let ?S = "\<Sum>x\<leftarrow>xs. x * x"
  have n0: "0 < ?n" using ne by simp
  have rn: "1 \<le> real ?n" using ne by (cases xs) auto
  have rn2: "real ?n \<le> 2 ^ 32" using len by (metis of_nat_le_iff of_nat_numeral of_nat_power)
  have S0: "0 \<le> ?S" by (induction xs) auto
  obtain s where s: "sum_squares (map Fin xs) = Fin s" "s = 0 \<or> 2 powi (- 298) \<le> s" "0 \<le> s"
      "s \<le> ?S * rounding ^ (2 * ?n)" "?S \<le> s * rounding ^ (2 * ?n)" "?S \<le> real ?n * 2 powi 256"
    using fold_bound[OF fl, of 0 0 0] len by (auto simp: sum_squares_def fold_map_Fin)
  have rms0: "0 \<le> root_mean_square xs"
    using S0 by (simp add: root_mean_square_def)
  have gp: "0 < rounding ^ (?n + 2)" using rounding_pos by simp
  show ?thesis
  proof (cases "s = 0")
    case True
    have "rms (map Fin xs) = Fin 0"
      using s(1) True n0 by (simp add: rms_def to_double_zero)
    moreover have "?S = 0" using s(5) S0 True by simp
    then have "root_mean_square xs = 0" by (simp add: root_mean_square_def)
    ultimately show ?thesis by simp
  next
    case False
    then have slo: "2 powi (- 298) \<le> s" using s(2) by simp
    have g2n: "rounding ^ (2 * ?n) \<le> 2" using len by (intro rounding_power_le2) simp
    have "s \<le> ?S * 2" using s(4) g2n S0 by (meson mult_left_mono order_trans)
    also have "\<dots> \<le> real ?n * 2 powi 256 * 2" using s(6) by simp
    also have "\<dots> \<le> 2 ^ 32 * 2 powi 256 * 2"
      using rn2 by (intro mult_right_mono) auto
    finally have shi: "s \<le> 2 powi 289" by simp
    have "s / 2 ^ 32 \<le> s / real ?n"
      using rn2 rn s(3) by (intro divide_left_mono) auto
    moreover have "2 powi (- 298) / 2 ^ 32 \<le> s / 2 ^ 32"
      using slo by (intro divide_right_mono) auto
    ultimately have "2 powi (- 298) / 2 ^ 32 \<le> s / real ?n" by linarith
    then have qlo: "2 powi (- 330) \<le> s / real ?n" by simp
    have "s / real ?n \<le> s / 1" using rn s(3) by (intro divide_left_mono) auto
    then have qhi: "s / real ?n \<le> 2 powi 1023" using shi by simp
    obtain q where q: "to_double (s / real ?n) = Fin q" "2 powi (- 330) \<le> q"
        "q \<le> s / real ?n * rounding" "s / real ?n \<le> q * rounding"
      using to_double_range[OF qlo qhi] by auto
    have q0: "0 \<le> q" using q(2) zero_less_power_int[of "2::real" "- 330"] by linarith
    have "((2::real) powi (- 165))\<^sup>2 = 2 powi (- 330)"
      by (simp add: power_divide)
    then have "(2 powi (- 165))\<^sup>2 \<le> q" using q(2) by (simp only:)
    then have rlo: "2 powi (- 165) \<le> sqrt q" by (rule real_le_rsqrt)
    have "q \<le> 2 powi 1023 * rounding" using q(3) qhi rounding_pos
      by (meson mult_right_mono order_trans less_imp_le)
    moreover have "rounding \<le> 2" using rounding_power_le2[of 1] by simp
    ultimately have q2: "q \<le> 2 powi 1023 * 2"
      by (meson mult_left_mono order_trans zero_le_power_int zero_le_numeral)
    have "(2::real) powi 1023 * 2 \<le> (2 powi 1023)\<^sup>2"
      by (simp add: power_divide)
    with q2 have "q \<le> (2 powi 1023)\<^sup>2" by linarith
    then have rhi: "sqrt q \<le> 2 powi 1023" using q0 by (intro real_le_lsqrt) auto
    obtain r where r: "to_double (sqrt q) = Fin r" "2 powi (- 165) \<le> r"
        "r \<le> sqrt q * rounding" "sqrt q \<le> r * rounding"
      using to_double_range[OF rlo rhi] by auto
    have r0: "0 \<le> r" using r(2) zero_less_power_int[of "2::real" "- 165"] by linarith
    have eq: "rms (map Fin xs) = Fin r"
      using s(1) q(1) r(1) n0 q0 by (simp add: rms_def)
    define P where "P = rounding ^ (?n + 1)"
    have P0: "0 < P" using rounding_pos by (simp add: P_def)
    have "rounding ^ (2 * ?n) = rounding ^ ?n * rounding ^ ?n" by (simp add: mult_2 power_add)
    then have eq2: "rounding ^ (2 * ?n) * rounding * rounding = P\<^sup>2"
      by (simp add: power2_eq_square P_def)
    have sqP: "sqrt (P\<^sup>2) = P" using P0 by simp
    have Pn: "P * rounding = rounding ^ (?n + 2)" by (simp add: P_def)
    have M0: "0 \<le> ?S / real ?n" using S0 by simp
    have rmsM: "sqrt (?S / real ?n) = root_mean_square xs"
      by (simp only: root_mean_square_def)
    have "s / real ?n \<le> ?S * rounding ^ (2 * ?n) / real ?n"
      using s(4) by (intro divide_right_mono) auto
    then have "s / real ?n * rounding \<le> ?S * rounding ^ (2 * ?n) / real ?n * rounding"
      using rounding_pos by (intro mult_right_mono) auto
    then have qM: "q \<le> (?S / real ?n) * (rounding ^ (2 * ?n) * rounding)"
      using q(3) by (simp add: algebra_simps)
    have "rounding ^ (2 * ?n) * rounding * 1 \<le> rounding ^ (2 * ?n) * rounding * rounding"
      using rounding_pos rounding_ge1 by (intro mult_left_mono) auto
    then have gg: "rounding ^ (2 * ?n) * rounding \<le> rounding ^ (2 * ?n) * rounding * rounding"
      by simp
    have "(?S / real ?n) * (rounding ^ (2 * ?n) * rounding)
            \<le> (?S / real ?n) * (rounding ^ (2 * ?n) * rounding * rounding)"
      using M0 gg by (rule mult_left_mono[rotated])
    then have "q \<le> (?S / real ?n) * (rounding ^ (2 * ?n) * rounding * rounding)"
      using qM by linarith
    then have "q \<le> (?S / real ?n) * P\<^sup>2" unfolding eq2 .
    then have "sqrt q \<le> sqrt ((?S / real ?n) * P\<^sup>2)" by simp
    also have "\<dots> = sqrt (?S / real ?n) * sqrt (P\<^sup>2)" by (rule real_sqrt_mult)
    finally have "sqrt q \<le> root_mean_square xs * P" unfolding sqP rmsM .
    then have "sqrt q * rounding \<le> root_mean_square xs * P * rounding"
      using rounding_pos by (intro mult_right_mono) auto
    then have up: "r \<le> root_mean_square xs * rounding ^ (?n + 2)"
      using r(3) Pn by (simp add: mult.assoc)
    have "?S / real ?n \<le> s * rounding ^ (2 * ?n) / real ?n"
      using s(5) by (intro divide_right_mono) auto
    also have "\<dots> = s / real ?n * rounding ^ (2 * ?n)" by simp
    also have "\<dots> \<le> q * rounding * rounding ^ (2 * ?n)"
      using q(4) rounding_pos by (intro mult_right_mono) auto
    also have "\<dots> = q * (rounding ^ (2 * ?n) * rounding)" by (simp add: algebra_simps)
    also have "\<dots> \<le> q * (rounding ^ (2 * ?n) * rounding * rounding)"
      using q0 gg by (rule mult_left_mono[rotated])
    finally have "?S / real ?n \<le> q * P\<^sup>2" unfolding eq2 .
    then have "sqrt (?S / real ?n) \<le> sqrt (q * P\<^sup>2)" by simp
    also have "\<dots> = sqrt q * sqrt (P\<^sup>2)" by (rule real_sqrt_mult)
    finally have "root_mean_square xs \<le> sqrt q * P" unfolding sqP rmsM .
    also have "\<dots> \<le> r * rounding * P"
      using r(4) P0 by (intro mult_right_mono) auto
    also have "\<dots> = r * (P * rounding)" by (simp add: algebra_simps)
    finally have lowr: "root_mean_square xs \<le> r * rounding ^ (?n + 2)" unfolding Pn .
    from eq r0 up lowr show ?thesis by blast
  qed
qed

subsection \<open>Concrete chunks\<close>

lemmas double_eval =
  rms_def sum_squares_def math_sqrt_code sqrt_to_double_def to_double_def expo_def
  compute_bitlen round_half_even_def Let_def isqrt.simps

text \<open>
  Rounding at the halfway points, at both ends of the range, and of two square roots:
  \<open>1 + 2 ^ -53\<close> goes down to 1 and \<open>1 + 3 * 2 ^ -53\<close> up to \<open>1 + 2 ^ -51\<close>; half the
  smallest subnormal goes to 0; the halfway point above the largest double overflows.
\<close>

lemma to_double_examples:
  "to_double (1 + 1 / 2 ^ 53) = Fin 1"
  "to_double (1 + 3 / 2 ^ 53) = Fin (1 + 1 / 2 ^ 51)"
  "to_double (1 / 3) = Fin (6004799503160661 / 2 ^ 54)"
  "to_double (- (1 / 3)) = Fin (- (6004799503160661 / 2 ^ 54))"
  "to_double (2 powi (- 1075)) = Fin 0"
  "to_double (3 * 2 powi (- 1075)) = Fin (2 powi (- 1073))"
  "to_double (2 powi 1024 - 2 powi 970) = PosInf"
  "to_double (2 powi 1024 - 2 powi 971) = Fin (2 powi 1024 - 2 powi 971)"
  by (simp_all add: double_eval)

lemma math_sqrt_examples:
  "math_sqrt (Fin 2) = Fin (6369051672525773 / 2 ^ 52)"
  "math_sqrt (Fin (1 / 4)) = Fin (1 / 2)"
  by (simp_all add: double_eval del: math_sqrt.simps)

text \<open>The default threshold, the double that the literal \<^verbatim>\<open>0.2\<close> denotes.\<close>

lemma default_vadThreshold:
  "vadThreshold (setAudioDataCallback True audio_init) = Fin (3602879701896397 / 2 ^ 54)"
  by (simp add: setAudioDataCallback_def audio_init_def double_eval)

text \<open>
  Three samples at the double \<^verbatim>\<open>0.3\<close> with the threshold at the same double: the exact root
  mean square is the threshold itself, the computed one is the next double above it.
\<close>

lemma rms_three_tenths:
  "to_double 0.3 = Fin (5404319552844595 / 2 ^ 54) \<and>
   rms [to_double 0.3, to_double 0.3, to_double 0.3] = Fin (5404319552844596 / 2 ^ 54) \<and>
   detectVoiceActivity [to_double 0.3, to_double 0.3, to_double 0.3]
     (audio_init\<lparr>vadThreshold := to_double 0.3\<rparr>)"
proof -
  have d: "to_double 0.3 = Fin (5404319552844595 / 2 ^ 54)"
    by (simp add: double_eval)
  have r: "rms [Fin (5404319552844595 / 2 ^ 54), Fin (5404319552844595 / 2 ^ 54),
                Fin (5404319552844595 / 2 ^ 54)] = Fin (5404319552844596 / 2 ^ 54)"
    by (simp add: double_eval del: math_sqrt.simps)
  show ?thesis unfolding detectVoiceActivity_def d r by simp
qed

text \<open>Two chunks with a root mean square of \<open>3 / 8\<close> and of \<open>3 / 32\<close>, computed without error.\<close>

lemma rms_loud: "rms (map Fin [0, 1 / 4, 1 / 2, 1 / 2]) = Fin (3 / 8)"
  by (simp add: double_eval del: math_sqrt.simps)

lemma rms_quiet: "rms (map Fin [0, 1 / 16, 1 / 8, 1 / 8]) = Fin (3 / 32)"
  by (simp add: double_eval del: math_sqrt.simps)

lemma root_mean_square_loud: "root_mean_square [0, 1 / 4, 1 / 2, 1 / 2] = 3 / 8"
  unfolding root_mean_square_def by (rule real_sqrt_unique) (simp_all add: power2_eq_square)

lemma root_mean_square_quiet: "root_mean_square [0, 1 / 16, 1 / 8, 1 / 8] = 3 / 32"
  unfolding root_mean_square_def by (rule real_sqrt_unique) (simp_all add: power2_eq_square)

text \<open>
  A chunk of four single-precision samples, about \<open>0.396\<close>, \<open>6.65e-5\<close>, \<open>0.0566\<close> and
  \<open>1.12e-8\<close>: the second and the fourth sum of the loop are rounded, and the computed value
  of \<^verbatim>\<open>rms\<close> is the double next above the default threshold, while the exact root mean
  square lies below the threshold.
\<close>

lemma rms_rounded_up:
  "rms [Fin (6643305 / 2 ^ 24), Fin (9138465 / 2 ^ 37), Fin (15199947 / 2 ^ 28),
        Fin (12584759 / 2 ^ 50)] = Fin (7205759403792795 / 2 ^ 55)"
  by (simp add: double_eval del: math_sqrt.simps)

lemma root_mean_square_below:
  "root_mean_square [6643305 / 2 ^ 24, 9138465 / 2 ^ 37, 15199947 / 2 ^ 28, 12584759 / 2 ^ 50]
     < 3602879701896397 / 2 ^ 54"
  unfolding root_mean_square_def by (rule real_less_lsqrt) (simp_all add: power_divide)

subsection \<open>The voice-activity gate\<close>

lemma zero_chunk:
  "\<forall>x \<in> set zeros. x = Fin 0 \<Longrightarrow>
     fold (\<lambda>x sum. js_add sum (js_mul x x)) zeros (Fin 0) = Fin 0"
  by (induction zeros) (simp_all add: to_double_zero)

lemma rms_zero: "\<forall>x \<in> set zeros. x = Fin 0 \<Longrightarrow> rms zeros = (if zeros = [] then NaN else Fin 0)"
  by (simp add: rms_def sum_squares_def zero_chunk to_double_zero)

lemma js_gt_zero: "js_gt t (Fin 0) \<Longrightarrow> \<not> js_gt (Fin 0) t"
  by (cases t) auto

lemma rms_empty: "rms [] = NaN"
  by (simp add: rms_def sum_squares_def)

text \<open>
  Within the rounding factor, \<^verbatim>\<open>detectVoiceActivity\<close> decides whether the exact root mean
  square exceeds the threshold.
\<close>

lemma detectVoiceActivity_bounds:
  assumes "\<forall>x \<in> set xs. float32_magnitude x" and "length xs \<le> 2 ^ 32" and "xs \<noteq> []"
  shows "detectVoiceActivity (map Fin xs) a \<Longrightarrow>
           js_gt (Fin (root_mean_square xs * rounding ^ (length xs + 2))) (vadThreshold a)"
    and "js_gt (Fin (root_mean_square xs / rounding ^ (length xs + 2))) (vadThreshold a) \<Longrightarrow>
           detectVoiceActivity (map Fin xs) a"
proof -
  obtain r where r: "rms (map Fin xs) = Fin r"
      "r \<le> root_mean_square xs * rounding ^ (length xs + 2)"
      "root_mean_square xs \<le> r * rounding ^ (length xs + 2)"
    using rms_bound[OF assms] by blast
  have gp: "0 < rounding ^ (length xs + 2)" using rounding_pos by simp
  show "js_gt (Fin (root_mean_square xs * rounding ^ (length xs + 2))) (vadThreshold a)"
    if "detectVoiceActivity (map Fin xs) a"
    using that r(1,2) js_gt_mono unfolding detectVoiceActivity_def by metis
  have low: "root_mean_square xs / rounding ^ (length xs + 2) \<le> r"
    using r(3) gp by (simp add: pos_divide_le_eq)
  show "detectVoiceActivity (map Fin xs) a"
    if "js_gt (Fin (root_mean_square xs / rounding ^ (length xs + 2))) (vadThreshold a)"
    using that r(1) low js_gt_mono unfolding detectVoiceActivity_def by metis
qed

text \<open>
  C5, as stated: the callback fires only when the RMS of the chunk's samples exceeds
  \<^verbatim>\<open>vadThreshold\<close>. The code compares the value it computes in double arithmetic, which
  can lie above the threshold when the root mean square of the samples does not. On a
  fresh service with the callback registered (threshold \<^verbatim>\<open>0.2\<close>), the chunk of the four
  single-precision samples \<open>6643305 / 2 ^ 24\<close>, \<open>9138465 / 2 ^ 37\<close>, \<open>15199947 / 2 ^ 28\<close>,
  \<open>12584759 / 2 ^ 50\<close> makes \<^verbatim>\<open>detectVoiceActivity\<close> return true and the callback fire
  (the computed \<^verbatim>\<open>rms\<close> is \<^verbatim>\<open>0.20000000000000004\<close>), while the root mean square of the
  samples is below the threshold.
\<close>

theorem voice_gate_fires_below_threshold:
  "detectVoiceActivity
     [Fin (6643305 / 2 ^ 24), Fin (9138465 / 2 ^ 37), Fin (15199947 / 2 ^ 28),
      Fin (12584759 / 2 ^ 50)]
     (setAudioDataCallback True audio_init) \<and>
   processAudioChunk ''2026-01-01T00:00:00.000Z''
     (Some [Fin (6643305 / 2 ^ 24), Fin (9138465 / 2 ^ 37), Fin (15199947 / 2 ^ 28),
            Fin (12584759 / 2 ^ 50)])
     (setAudioDataCallback True audio_init)
     = [([Fin (6643305 / 2 ^ 24), Fin (9138465 / 2 ^ 37), Fin (15199947 / 2 ^ 28),
          Fin (12584759 / 2 ^ 50)], Fin 24000, Fin 1, ''2026-01-01T00:00:00.000Z'')] \<and>
   vadThreshold (setAudioDataCallback True audio_init) = Fin (3602879701896397 / 2 ^ 54) \<and>
   root_mean_square [6643305 / 2 ^ 24, 9138465 / 2 ^ 37, 15199947 / 2 ^ 28, 12584759 / 2 ^ 50]
     < 3602879701896397 / 2 ^ 54 \<and>
   \<not> js_gt
       (Fin (root_mean_square
               [6643305 / 2 ^ 24, 9138465 / 2 ^ 37, 15199947 / 2 ^ 28, 12584759 / 2 ^ 50]))
       (vadThreshold (setAudioDataCallback True audio_init))"
proof -
  let ?a = "setAudioDataCallback True audio_init"
  let ?chunk = "[Fin (6643305 / 2 ^ 24), Fin (9138465 / 2 ^ 37), Fin (15199947 / 2 ^ 28),
                 Fin (12584759 / 2 ^ 50)]"
  have s: "onAudioData ?a" "sampleRate ?a = Fin 24000" "channels ?a = Fin 1"
    by (simp_all add: setAudioDataCallback_def audio_init_def)
  have d: "detectVoiceActivity ?chunk ?a"
    unfolding detectVoiceActivity_def rms_rounded_up default_vadThreshold by simp
  have p: "processAudioChunk ''2026-01-01T00:00:00.000Z'' (Some ?chunk) ?a
             = [(?chunk, Fin 24000, Fin 1, ''2026-01-01T00:00:00.000Z'')]"
    using d s by (simp add: processAudioChunk_def)
  have n: "\<not> js_gt
               (Fin (root_mean_square
                  [6643305 / 2 ^ 24, 9138465 / 2 ^ 37, 15199947 / 2 ^ 28, 12584759 / 2 ^ 50]))
               (vadThreshold ?a)"
    unfolding default_vadThreshold using root_mean_square_below by simp
  from d p default_vadThreshold root_mean_square_below n show ?thesis by (intro conjI)
qed

text \<open>
  C5, amended. \<^verbatim>\<open>processAudioChunk\<close> calls the \<^verbatim>\<open>onAudioData\<close> callback only for a decoded
  chunk on which \<^verbatim>\<open>detectVoiceActivity\<close> returns true, and then once, with the chunk and
  its metadata. On a chunk of \<open>n\<close> finite samples of single-precision magnitude, with
  \<open>n\<close> from 1 to \<open>2 ^ 32\<close>, \<^verbatim>\<open>detectVoiceActivity\<close> returns true only when the root mean
  square of the samples, multiplied by \<open>(1 + 2 ^ -53) ^ (n + 2)\<close>, exceeds \<^verbatim>\<open>vadThreshold\<close>,
  and it does return true when the root mean square divided by that factor exceeds
  \<^verbatim>\<open>vadThreshold\<close>. For a buffer of zeros (of any length, the empty one included) and a
  threshold above 0, \<^verbatim>\<open>detectVoiceActivity\<close> returns false and the callback is not
  called; on an empty chunk it returns false at every threshold.
\<close>

theorem voice_activity_gate_rounded:
  "(processAudioChunk now decoded a \<noteq> [] \<longrightarrow>
      (\<exists>audioData. decoded = Some audioData \<and> onAudioData a \<and>
         detectVoiceActivity audioData a \<and>
         processAudioChunk now decoded a = [(audioData, sampleRate a, channels a, now)])) \<and>
   (xs \<noteq> [] \<and> length xs \<le> 2 ^ 32 \<and> (\<forall>x \<in> set xs. float32_magnitude x) \<longrightarrow>
      (detectVoiceActivity (map Fin xs) a \<longrightarrow>
         js_gt (Fin (root_mean_square xs * (1 + 1 / 2 ^ 53) ^ (length xs + 2))) (vadThreshold a)) \<and>
      (js_gt (Fin (root_mean_square xs / (1 + 1 / 2 ^ 53) ^ (length xs + 2))) (vadThreshold a) \<longrightarrow>
         detectVoiceActivity (map Fin xs) a)) \<and>
   ((\<forall>x \<in> set zeros. x = Fin 0) \<and> js_gt (vadThreshold a) (Fin 0) \<longrightarrow>
      \<not> detectVoiceActivity zeros a \<and> processAudioChunk now (Some zeros) a = []) \<and>
   \<not> detectVoiceActivity [] a"
proof (intro conjI impI)
  assume "processAudioChunk now decoded a \<noteq> []"
  then show "\<exists>audioData. decoded = Some audioData \<and> onAudioData a \<and>
         detectVoiceActivity audioData a \<and>
         processAudioChunk now decoded a = [(audioData, sampleRate a, channels a, now)]"
    by (auto simp: processAudioChunk_def split: option.splits if_splits)
next
  assume h: "xs \<noteq> [] \<and> length xs \<le> 2 ^ 32 \<and> (\<forall>x \<in> set xs. float32_magnitude x)"
    and d: "detectVoiceActivity (map Fin xs) a"
  show "js_gt (Fin (root_mean_square xs * (1 + 1 / 2 ^ 53) ^ (length xs + 2))) (vadThreshold a)"
    using detectVoiceActivity_bounds(1)[of xs a] h d unfolding rounding_def by blast
next
  assume h: "xs \<noteq> [] \<and> length xs \<le> 2 ^ 32 \<and> (\<forall>x \<in> set xs. float32_magnitude x)"
    and d: "js_gt (Fin (root_mean_square xs / (1 + 1 / 2 ^ 53) ^ (length xs + 2))) (vadThreshold a)"
  show "detectVoiceActivity (map Fin xs) a"
    using detectVoiceActivity_bounds(2)[of xs a] h d unfolding rounding_def by blast
next
  assume z: "(\<forall>x \<in> set zeros. x = Fin 0) \<and> js_gt (vadThreshold a) (Fin 0)"
  then show n: "\<not> detectVoiceActivity zeros a"
    by (simp add: detectVoiceActivity_def rms_zero js_gt_zero)
  then show "processAudioChunk now (Some zeros) a = []"
    by (simp add: processAudioChunk_def)
next
  show "\<not> detectVoiceActivity [] a"
    by (simp add: detectVoiceActivity_def rms_empty)
qed

theorem voice_activity_gate_rounded_witness:
  "processAudioChunk ''2026-01-01T00:00:00.000Z'' (Some (map Fin [0, 1 / 4, 1 / 2, 1 / 2]))
       (setAudioDataCallback True audio_init)
     = [(map Fin [0, 1 / 4, 1 / 2, 1 / 2], sampleRate (setAudioDataCallback True audio_init),
         channels (setAudioDataCallback True audio_init), ''2026-01-01T00:00:00.000Z'')] \<and>
   filter (\<lambda>x. \<not> float32_magnitude x) [0, 1 / 4, 1 / 2, 1 / 2] = [] \<and>
   detectVoiceActivity (map Fin [0, 1 / 4, 1 / 2, 1 / 2]) (setAudioDataCallback True audio_init) \<and>
   root_mean_square [0, 1 / 4, 1 / 2, 1 / 2] = 3 / 8 \<and>
   js_gt (Fin (root_mean_square [0, 1 / 4, 1 / 2, 1 / 2] *
               (1 + 1 / 2 ^ 53) ^ (length [0, 1 / 4, 1 / 2, 1 / 2 :: real] + 2)))
     (vadThreshold (setAudioDataCallback True audio_init)) \<and>
   js_gt (Fin (root_mean_square [0, 1 / 4, 1 / 2, 1 / 2] /
               (1 + 1 / 2 ^ 53) ^ (length [0, 1 / 4, 1 / 2, 1 / 2 :: real] + 2)))
     (vadThreshold (setAudioDataCallback True audio_init)) \<and>
   \<not> detectVoiceActivity (map Fin [0, 1 / 16, 1 / 8, 1 / 8]) (setAudioDataCallback True audio_init) \<and>
   \<not> js_gt (Fin (root_mean_square [0, 1 / 16, 1 / 8, 1 / 8] /
               (1 + 1 / 2 ^ 53) ^ (length [0, 1 / 16, 1 / 8, 1 / 8 :: real] + 2)))
     (vadThreshold (setAudioDataCallback True audio_init)) \<and>
   set [Fin 0, Fin 0, Fin 0] = {Fin 0} \<and>
   js_gt (vadThreshold (setAudioDataCallback True audio_init)) (Fin 0) \<and>
   \<not> detectVoiceActivity [Fin 0, Fin 0, Fin 0] (setAudioDataCallback True audio_init) \<and>
   processAudioChunk ''2026-01-01T00:00:00.000Z'' (Some [Fin 0, Fin 0, Fin 0])
       (setAudioDataCallback True audio_init) = []"
proof -
  let ?a = "setAudioDataCallback True audio_init"
  let ?now = "''2026-01-01T00:00:00.000Z''"
  let ?loud = "[0, 1 / 4, 1 / 2, 1 / 2] :: real list"
  let ?quiet = "[0, 1 / 16, 1 / 8, 1 / 8] :: real list"
  let ?zeros = "[Fin 0, Fin 0, Fin 0]"
  have cb: "onAudioData ?a" by (simp add: setAudioDataCallback_def)
  have loud: "detectVoiceActivity (map Fin ?loud) ?a"
    unfolding detectVoiceActivity_def rms_loud default_vadThreshold by simp
  have quiet: "\<not> detectVoiceActivity (map Fin ?quiet) ?a"
    unfolding detectVoiceActivity_def rms_quiet default_vadThreshold by simp
  have fires: "processAudioChunk ?now (Some (map Fin ?loud)) ?a \<noteq> []"
    using loud cb by (simp add: processAudioChunk_def)
  have m1: "?loud \<noteq> [] \<and> length ?loud \<le> 2 ^ 32 \<and> (\<forall>x \<in> set ?loud. float32_magnitude x)"
    by (simp add: float32_magnitude_def)
  have m2: "?quiet \<noteq> [] \<and> length ?quiet \<le> 2 ^ 32 \<and> (\<forall>x \<in> set ?quiet. float32_magnitude x)"
    by (simp add: float32_magnitude_def)
  have f: "filter (\<lambda>x. \<not> float32_magnitude x) ?loud = []"
    by (simp add: float32_magnitude_def)
  have above: "js_gt (Fin (root_mean_square ?loud / (1 + 1 / 2 ^ 53) ^ (length ?loud + 2)))
                 (vadThreshold ?a)"
    unfolding root_mean_square_loud default_vadThreshold by simp
  have z: "(\<forall>x \<in> set ?zeros. x = Fin 0) \<and> js_gt (vadThreshold ?a) (Fin 0)"
    unfolding default_vadThreshold by simp
  have zs: "set ?zeros = {Fin 0}" by simp
  note w1 = voice_activity_gate_rounded [of ?now "Some (map Fin ?loud)" ?a ?loud ?zeros]
  note w2 = voice_activity_gate_rounded [of ?now "Some (map Fin ?quiet)" ?a ?quiet ?zeros]
  have c1: "processAudioChunk ?now (Some (map Fin ?loud)) ?a
              = [(map Fin ?loud, sampleRate ?a, channels ?a, ?now)]"
    using w1 fires by blast
  have c2: "js_gt (Fin (root_mean_square ?loud * (1 + 1 / 2 ^ 53) ^ (length ?loud + 2)))
              (vadThreshold ?a)"
    using w1 m1 loud by blast
  have c3: "\<not> js_gt (Fin (root_mean_square ?quiet / (1 + 1 / 2 ^ 53) ^ (length ?quiet + 2)))
              (vadThreshold ?a)"
    using w2 m2 quiet by blast
  have c4: "\<not> detectVoiceActivity ?zeros ?a \<and> processAudioChunk ?now (Some ?zeros) ?a = []"
    using w1 z by blast
  from c1 f loud root_mean_square_loud c2 above quiet c3 zs z c4 show ?thesis
    by (intro conjI) (simp_all only: simp_thms)
qed

text \<open>
  The branches of \<^verbatim>\<open>updateSettings\<close> for \<^verbatim>\<open>vad_threshold\<close> and \<^verbatim>\<open>echo_cancellation\<close>, and
  the one for a truthy \<^verbatim>\<open>sample_rate\<close>, store what they are given, and \<^verbatim>\<open>getSettings\<close>
  returns it.
\<close>

lemma audio_settings_stored:
  "(vad_threshold settings = Some t \<longrightarrow>
      vad_threshold (audio_getSettings (audio_updateSettings settings a)) = Some t) \<and>
   (echo_cancellation settings = Some e \<longrightarrow>
      echo_cancellation (audio_getSettings (audio_updateSettings settings a)) = Some e) \<and>
   (sample_rate settings = Some r \<and> truthy r \<longrightarrow>
      sample_rate (audio_getSettings (audio_updateSettings settings a)) = Some r)"
  by (simp add: audio_getSettings_def audio_updateSettings_def Let_def split: option.splits)

text \<open>
  C8. After \<^verbatim>\<open>updateSettings(s)\<close>, \<^verbatim>\<open>getSettings()\<close> is to return the supplied value of
  each field present in \<open>s\<close>, so that \<^verbatim>\<open>updateSettings({noise_suppression: b})\<close> makes
  \<^verbatim>\<open>getSettings().noise_suppression\<close> equal to \<open>b\<close>. On the code the branch guarded by
  \<^verbatim>\<open>settings.noise_suppression\<close> assigns \<^verbatim>\<open>settings.noiseSuppression\<close>, which the argument
  does not have: after \<^verbatim>\<open>updateSettings({noise_suppression: false})\<close> on a fresh service the
  getter returns \<^verbatim>\<open>undefined\<close>, while the sibling branch for \<^verbatim>\<open>echo_cancellation\<close> stores
  the value it is given.
\<close>

theorem audio_noise_suppression_lost:
  "noise_suppression (audio_getSettings
      (audio_updateSettings (no_audio_settings\<lparr>noise_suppression := Some False\<rparr>) audio_init))
     = None \<and>
   noise_suppression (audio_getSettings audio_init) = Some True \<and>
   echo_cancellation (audio_getSettings
      (audio_updateSettings (no_audio_settings\<lparr>echo_cancellation := Some False\<rparr>) audio_init))
     = Some False"
  by (simp add: audio_getSettings_def audio_updateSettings_def no_audio_settings_def audio_init_def)

section \<open>WebSocketService: results\<close>

subsection \<open>What each operation leaves alone\<close>

lemma send_frame:
  "reconnectDelay (snd (send now m s)) = reconnectDelay s"
  "maxReconnectAttempts (snd (send now m s)) = maxReconnectAttempts s"
  "reconnectAttempts (snd (send now m s)) = reconnectAttempts s"
  "scheduled (snd (send now m s)) = scheduled s"
  "timers (snd (send now m s)) = timers s"
  "autoReconnect (snd (send now m s)) = autoReconnect s"
  "ws (snd (send now m s)) = ws s"
  "length (sockets (snd (send now m s))) = length (sockets s)"
  by (simp_all add: send_def Let_def split: option.splits)

lemma connect_frame:
  "reconnectDelay (connect sid f t s) = reconnectDelay s"
  "maxReconnectAttempts (connect sid f t s) = maxReconnectAttempts s"
  "reconnectAttempts (connect sid f t s) = reconnectAttempts s"
  "scheduled (connect sid f t s) = scheduled s"
  "timers (connect sid f t s) = timers s"
  "autoReconnect (connect sid f t s) = autoReconnect s"
  by (simp_all add: connect_def handleConnectionError_def notifyConnectionHandlers_def Let_def)

lemma disconnect_fields:
  "\<not> autoReconnect (disconnect s)"
  "ws (disconnect s) = None"
  "scheduled (disconnect s) = scheduled s"
  "timers (disconnect s) = timers s"
  "length (sockets (disconnect s)) = length (sockets s)"
  by (simp_all add: disconnect_def notifyConnectionHandlers_def close_socket_def
        set_readyState_def Let_def split: option.splits)

lemma onopen_fields:
  "ws (onopen a b s) = ws s"
  "sessionId (onopen a b s) = sessionId s"
  "length (sockets (onopen a b s)) = length (sockets s)"
  "i < length (sockets s) \<Longrightarrow>
     readyState (sockets (onopen a b s) ! i) = readyState (sockets s ! i)"
  by (simp_all add: onopen_def send_def Let_def notifyConnectionHandlers_def nth_list_update
        split: option.splits)

lemma scheduleReconnect_delay:
  "scheduled (scheduleReconnect s)
     = scheduled s @ [(reconnectAttempts s + 1, reconnectDelay s * 2 ^ reconnectAttempts s)] \<and>
   timers (scheduleReconnect s) = timers s @ [reconnectDelay s * 2 ^ reconnectAttempts s] \<and>
   reconnectAttempts (scheduleReconnect s) = reconnectAttempts s + 1"
  by (simp add: scheduleReconnect_def Let_def)

subsection \<open>The backoff invariant\<close>

lemma backoff_inv_init: "backoff_inv ws_init"
  by (simp add: backoff_inv_def ws_init_def)

lemma backoff_inv_step: "backoff_inv s \<Longrightarrow> backoff_inv (ws_step e s)"
proof (cases e)
  case (OnClose i)
  assume "backoff_inv s"
  then show ?thesis
    unfolding OnClose
    by (auto simp: backoff_inv_def onclose_def scheduleReconnect_def notifyConnectionHandlers_def
          set_readyState_def Let_def)
next
  case (OnOpen i a b)
  assume "backoff_inv s"
  then show ?thesis
    unfolding OnOpen
    by (auto simp: backoff_inv_def onopen_def send_frame notifyConnectionHandlers_def
          set_readyState_def Let_def)
next
  case (Timeout k f t)
  assume "backoff_inv s"
  then show ?thesis
    unfolding Timeout
    by (auto simp: backoff_inv_def reconnect_callback_def connect_frame)
qed (auto simp: backoff_inv_def send_frame connect_frame disconnect_def setAutoReconnect_def
       onerror_def handleConnectionError_def notifyConnectionHandlers_def close_socket_def
       set_readyState_def Let_def split: option.splits)

lemma backoff_inv_run: "backoff_inv s \<Longrightarrow> backoff_inv (ws_run es s)"
  unfolding ws_run_def
  by (induction es arbitrary: s) (simp_all add: backoff_inv_step)

text \<open>
  Without a successful open, every scheduled reconnect is counted by
  \<open>reconnectAttempts\<close>, and a counter at the cap stays there.
\<close>

lemma count_step:
  "\<not> is_open_event e \<Longrightarrow>
   length (scheduled (ws_step e s)) + reconnectAttempts s
     = length (scheduled s) + reconnectAttempts (ws_step e s)"
  by (cases e)
     (auto simp: send_frame connect_frame disconnect_def setAutoReconnect_def
        onerror_def onclose_def scheduleReconnect_def reconnect_callback_def
        handleConnectionError_def notifyConnectionHandlers_def close_socket_def
        set_readyState_def Let_def split: option.splits)

lemma count_run:
  "\<forall>e \<in> set es. \<not> is_open_event e \<Longrightarrow>
   length (scheduled (ws_run es s)) + reconnectAttempts s
     = length (scheduled s) + reconnectAttempts (ws_run es s)"
  unfolding ws_run_def
proof (induction es arbitrary: s)
  case Nil
  then show ?case by simp
next
  case (Cons e es)
  have "length (scheduled (fold ws_step es (ws_step e s))) + reconnectAttempts (ws_step e s)
          = length (scheduled (ws_step e s)) + reconnectAttempts (fold ws_step es (ws_step e s))"
    using Cons by simp
  moreover have "length (scheduled (ws_step e s)) + reconnectAttempts s
          = length (scheduled s) + reconnectAttempts (ws_step e s)"
    using Cons.prems by (simp add: count_step)
  ultimately show ?case by simp
qed

lemma exhausted_step:
  "\<not> is_open_event e \<Longrightarrow> maxReconnectAttempts s \<le> reconnectAttempts s \<Longrightarrow>
   scheduled (ws_step e s) = scheduled s \<and>
   reconnectAttempts (ws_step e s) = reconnectAttempts s \<and>
   maxReconnectAttempts (ws_step e s) = maxReconnectAttempts s"
  by (cases e)
     (auto simp: send_frame connect_frame disconnect_def setAutoReconnect_def
        onerror_def onclose_def reconnect_callback_def
        handleConnectionError_def notifyConnectionHandlers_def close_socket_def
        set_readyState_def Let_def split: option.splits)

lemma exhausted_run:
  "\<forall>e \<in> set es. \<not> is_open_event e \<Longrightarrow> maxReconnectAttempts s \<le> reconnectAttempts s \<Longrightarrow>
   scheduled (ws_run es s) = scheduled s \<and>
   reconnectAttempts (ws_run es s) = reconnectAttempts s \<and>
   maxReconnectAttempts (ws_run es s) = maxReconnectAttempts s"
  unfolding ws_run_def
proof (induction es arbitrary: s)
  case Nil
  then show ?case by simp
next
  case (Cons e es)
  have st: "scheduled (ws_step e s) = scheduled s \<and>
            reconnectAttempts (ws_step e s) = reconnectAttempts s \<and>
            maxReconnectAttempts (ws_step e s) = maxReconnectAttempts s"
    using Cons.prems by (simp add: exhausted_step)
  then have "maxReconnectAttempts (ws_step e s) \<le> reconnectAttempts (ws_step e s)"
    using Cons.prems by simp
  with Cons.IH[of "ws_step e s"] Cons.prems st show ?case by simp
qed

lemma onclose_exhausted:
  "maxReconnectAttempts s \<le> reconnectAttempts s \<Longrightarrow>
   scheduled (ws_step (OnClose i) s) = scheduled s \<and>
   timers (ws_step (OnClose i) s) = timers s \<and>
   length (sockets (ws_step (OnClose i) s)) = length (sockets s) \<and>
   ws (ws_step (OnClose i) s) = ws s"
  by (auto simp: onclose_def notifyConnectionHandlers_def set_readyState_def Let_def)

lemma onclose_schedules:
  "autoReconnect s \<Longrightarrow> reconnectAttempts s < maxReconnectAttempts s \<Longrightarrow>
   i < length (sockets s) \<Longrightarrow> readyState (sockets s ! i) \<noteq> CLOSED \<Longrightarrow>
   timers (ws_step (OnClose i) s) = timers s @ [reconnectDelay s * 2 ^ reconnectAttempts s] \<and>
   reconnectAttempts (ws_step (OnClose i) s) = reconnectAttempts s + 1"
  by (simp add: onclose_def scheduleReconnect_def notifyConnectionHandlers_def
        set_readyState_def Let_def)

lemma five_closes_state:
  "scheduled (ws_run five_closes ws_init)
     = [(1, 1000), (2, 2000), (3, 4000), (4, 8000), (5, 16000)] \<and>
   reconnectAttempts (ws_run five_closes ws_init) = 5 \<and>
   length (sockets (ws_run five_closes ws_init)) = 6 \<and>
   timers (ws_run five_closes ws_init) = []"
  by (simp add: five_closes_def ws_run_def ws_init_def connect_def onclose_def
        reconnect_callback_def scheduleReconnect_def notifyConnectionHandlers_def
        set_readyState_def isConnected_def the_socket_def Let_def)

text \<open>
  C1. In every state \<open>S\<close> reached from the constructor: each reconnect that was scheduled
  has an attempt number \<open>n\<close> between 1 and 5 and the delay \<open>1000 * 2 ^ (n - 1)\<close>;
  \<^verbatim>\<open>scheduleReconnect\<close>, and a socket close while attempts remain, set a timer of
  \<open>1000 * 2 ^ (n - 1)\<close> for the new attempt number \<open>n\<close>; \<open>reconnectAttempts\<close> never
  exceeds 5; once it is 5 a socket close schedules nothing and opens nothing; and as long
  as no socket opens, whatever else happens (manual \<^verbatim>\<open>connect\<close> calls included), at most
  5 more reconnects are scheduled, none at all once the counter is 5.
\<close>

theorem reconnect_backoff:
  "(\<forall>p \<in> set (scheduled (ws_run es ws_init)).
        1 \<le> fst p \<and> fst p \<le> 5 \<and> snd p = 1000 * 2 ^ (fst p - 1)) \<and>
   reconnectAttempts (ws_run es ws_init) \<le> 5 \<and>
   timers (scheduleReconnect (ws_run es ws_init))
     = timers (ws_run es ws_init) @
       [1000 * 2 ^ (reconnectAttempts (scheduleReconnect (ws_run es ws_init)) - 1)] \<and>
   (autoReconnect (ws_run es ws_init) \<and> reconnectAttempts (ws_run es ws_init) < 5 \<and>
    i < length (sockets (ws_run es ws_init)) \<and>
    readyState (sockets (ws_run es ws_init) ! i) \<noteq> CLOSED \<longrightarrow>
      timers (ws_step (OnClose i) (ws_run es ws_init))
        = timers (ws_run es ws_init) @
          [1000 * 2 ^ (reconnectAttempts (ws_step (OnClose i) (ws_run es ws_init)) - 1)]) \<and>
   (reconnectAttempts (ws_run es ws_init) = 5 \<longrightarrow>
      scheduled (ws_step (OnClose i) (ws_run es ws_init)) = scheduled (ws_run es ws_init) \<and>
      timers (ws_step (OnClose i) (ws_run es ws_init)) = timers (ws_run es ws_init) \<and>
      length (sockets (ws_step (OnClose i) (ws_run es ws_init)))
        = length (sockets (ws_run es ws_init))) \<and>
   ((\<forall>e \<in> set es'. \<not> is_open_event e) \<longrightarrow>
      length (scheduled (ws_run es' (ws_run es ws_init)))
        \<le> length (scheduled (ws_run es ws_init)) + 5 \<and>
      (reconnectAttempts (ws_run es ws_init) = 5 \<longrightarrow>
         scheduled (ws_run es' (ws_run es ws_init)) = scheduled (ws_run es ws_init)))"
proof -
  let ?s = "ws_run es ws_init"
  have inv: "backoff_inv ?s"
    by (rule backoff_inv_run) (rule backoff_inv_init)
  have inv': "backoff_inv (ws_run es' ?s)"
    using inv by (rule backoff_inv_run)
  have c1: "\<forall>p \<in> set (scheduled ?s). 1 \<le> fst p \<and> fst p \<le> 5 \<and> snd p = 1000 * 2 ^ (fst p - 1)"
    using inv by (simp add: backoff_inv_def)
  have c2: "reconnectAttempts ?s \<le> 5"
    using inv by (simp add: backoff_inv_def)
  have d: "reconnectDelay ?s = 1000" and m: "maxReconnectAttempts ?s = 5"
    using inv by (simp_all add: backoff_inv_def)
  have c3: "timers (scheduleReconnect ?s)
     = timers ?s @ [1000 * 2 ^ (reconnectAttempts (scheduleReconnect ?s) - 1)]"
    using d by (simp add: scheduleReconnect_delay)
  have c4: "autoReconnect ?s \<and> reconnectAttempts ?s < 5 \<and> i < length (sockets ?s) \<and>
            readyState (sockets ?s ! i) \<noteq> CLOSED \<longrightarrow>
      timers (ws_step (OnClose i) ?s)
        = timers ?s @ [1000 * 2 ^ (reconnectAttempts (ws_step (OnClose i) ?s) - 1)]"
  proof
    assume h: "autoReconnect ?s \<and> reconnectAttempts ?s < 5 \<and> i < length (sockets ?s) \<and>
               readyState (sockets ?s ! i) \<noteq> CLOSED"
    then have "timers (ws_step (OnClose i) ?s)
                 = timers ?s @ [reconnectDelay ?s * 2 ^ reconnectAttempts ?s] \<and>
               reconnectAttempts (ws_step (OnClose i) ?s) = reconnectAttempts ?s + 1"
      using m by (intro onclose_schedules) simp_all
    then show "timers (ws_step (OnClose i) ?s)
        = timers ?s @ [1000 * 2 ^ (reconnectAttempts (ws_step (OnClose i) ?s) - 1)]"
      using d by simp
  qed
  have c5: "reconnectAttempts ?s = 5 \<longrightarrow>
      scheduled (ws_step (OnClose i) ?s) = scheduled ?s \<and>
      timers (ws_step (OnClose i) ?s) = timers ?s \<and>
      length (sockets (ws_step (OnClose i) ?s)) = length (sockets ?s)"
    using m onclose_exhausted[of ?s i] by simp
  have c6: "(\<forall>e \<in> set es'. \<not> is_open_event e) \<longrightarrow>
      length (scheduled (ws_run es' ?s)) \<le> length (scheduled ?s) + 5 \<and>
      (reconnectAttempts ?s = 5 \<longrightarrow> scheduled (ws_run es' ?s) = scheduled ?s)"
  proof
    assume no: "\<forall>e \<in> set es'. \<not> is_open_event e"
    have "length (scheduled (ws_run es' ?s)) + reconnectAttempts ?s
            = length (scheduled ?s) + reconnectAttempts (ws_run es' ?s)"
      using no by (rule count_run)
    moreover have "reconnectAttempts (ws_run es' ?s) \<le> 5"
      using inv' by (simp add: backoff_inv_def)
    ultimately have b: "length (scheduled (ws_run es' ?s)) \<le> length (scheduled ?s) + 5"
      by linarith
    have "reconnectAttempts ?s = 5 \<longrightarrow> scheduled (ws_run es' ?s) = scheduled ?s"
      using exhausted_run[OF no, of ?s] m by simp
    with b show "length (scheduled (ws_run es' ?s)) \<le> length (scheduled ?s) + 5 \<and>
      (reconnectAttempts ?s = 5 \<longrightarrow> scheduled (ws_run es' ?s) = scheduled ?s)"
      by simp
  qed
  from c1 c2 c3 c4 c5 c6 show ?thesis by blast
qed

theorem reconnect_backoff_witness:
  "scheduled (ws_run five_closes ws_init)
     = [(1, 1000), (2, 2000), (3, 4000), (4, 8000), (5, 16000)] \<and>
   reconnectAttempts (ws_run five_closes ws_init) = 5 \<and>
   scheduled (ws_step (OnClose 5) (ws_run five_closes ws_init))
     = [(1, 1000), (2, 2000), (3, 4000), (4, 8000), (5, 16000)] \<and>
   timers (ws_step (OnClose 5) (ws_run five_closes ws_init)) = [] \<and>
   length (sockets (ws_step (OnClose 5) (ws_run five_closes ws_init))) = 6 \<and>
   filter is_open_event [OnClose 5, Connect None ''session_9_z'' False, OnClose 6] = [] \<and>
   scheduled (ws_run [OnClose 5, Connect None ''session_9_z'' False, OnClose 6]
                (ws_run five_closes ws_init))
     = [(1, 1000), (2, 2000), (3, 4000), (4, 8000), (5, 16000)] \<and>
   timers (ws_step (OnClose 0) (ws_run [Connect (Some ''session_1'') ''session_0_a'' False] ws_init))
     = [1000]"
proof -
  let ?S = "ws_run five_closes ws_init"
  let ?es' = "[OnClose 5, Connect None ''session_9_z'' False, OnClose 6]"
  let ?C = "ws_run [Connect (Some ''session_1'') ''session_0_a'' False] ws_init"
  note st = five_closes_state
  have no: "\<forall>e \<in> set ?es'. \<not> is_open_event e" by simp
  have a: "scheduled (ws_step (OnClose 5) ?S) = scheduled ?S \<and>
           timers (ws_step (OnClose 5) ?S) = timers ?S \<and>
           length (sockets (ws_step (OnClose 5) ?S)) = length (sockets ?S)"
    using reconnect_backoff [where es = five_closes and i = 5 and es' = ?es'] st by blast
  have b: "scheduled (ws_run ?es' ?S) = scheduled ?S"
    using reconnect_backoff [where es = five_closes and i = 5 and es' = ?es'] st no by blast
  have C: "autoReconnect ?C \<and> reconnectAttempts ?C = 0 \<and> length (sockets ?C) = 1 \<and>
           readyState (sockets ?C ! 0) = CONNECTING \<and> timers ?C = []"
    by (simp add: ws_run_def ws_init_def connect_def isConnected_def the_socket_def Let_def)
  have "timers (ws_step (OnClose 0) ?C)
          = timers ?C @ [1000 * 2 ^ (reconnectAttempts (ws_step (OnClose 0) ?C) - 1)]"
    using reconnect_backoff
            [where es = "[Connect (Some ''session_1'') ''session_0_a'' False]" and i = 0 and es' = "[]"]
          C
    by simp
  moreover have "reconnectAttempts (ws_step (OnClose 0) ?C) = 1"
    using C by (simp add: onclose_def scheduleReconnect_def notifyConnectionHandlers_def
                  set_readyState_def ws_init_def ws_run_def connect_def isConnected_def
                  the_socket_def Let_def)
  ultimately have c: "timers (ws_step (OnClose 0) ?C) = [1000]"
    using C by simp
  have f: "filter is_open_event ?es' = []" by simp
  from st a b c f show ?thesis by simp
qed

subsection \<open>Sending\<close>

lemma update_set: "p \<in> set (AList.update k v al) \<Longrightarrow> p = (k, v) \<or> p \<in> set al"
  by (induction al) (auto split: if_splits)

lemma spread_serializable:
  "serializable message \<Longrightarrow> p \<in> set (spread message) \<Longrightarrow> serializable (snd p)"
  by (cases message) auto

lemma update_serializable:
  "serializable v \<Longrightarrow> \<forall>p \<in> set al. serializable (snd p) \<Longrightarrow>
   \<forall>p \<in> set (AList.update k v al). serializable (snd p)"
  using update_set by fastforce

lemma session_value_serializable: "serializable (session_value s)"
  by (simp add: session_value_def split: option.splits)

lemma envelope_serializable:
  "serializable message \<Longrightarrow> serializable (messageWithTimestamp now message s)"
proof -
  assume m: "serializable message"
  have 1: "\<forall>p \<in> set (spread message). serializable (snd p)"
    using m spread_serializable by blast
  have 2: "\<forall>p \<in> set (AList.update ''timestamp'' (JStr now) (spread message)).
             serializable (snd p)"
    by (rule update_serializable) (simp, rule 1)
  have 3: "\<forall>p \<in> set (AList.update ''session_id'' (session_value s)
                       (AList.update ''timestamp'' (JStr now) (spread message))).
             serializable (snd p)"
    by (rule update_serializable) (rule session_value_serializable, rule 2)
  then show ?thesis
    unfolding messageWithTimestamp_def serializable.simps .
qed

text \<open>The state right after \<^verbatim>\<open>connect("session_1")\<close> on a fresh service has opened.\<close>

lemma session_1_open:
  "ws_step (OnOpen 0 ''2026-01-01T00:00:01.000Z'' ''2026-01-01T00:00:01.001Z'')
     (connect (Some ''session_1'') ''session_0_a'' False ws_init)
   = \<lparr>sockets =
        [\<lparr>url = ''ws://localhost:8000/ws/session_1'', readyState = OPEN,
          sent = [JObj [(''type'', JStr ''connection''),
                        (''data'', JObj [(''session_id'', JStr ''session_1''),
                                         (''client_type'', JStr ''web_ui''),
                                         (''timestamp'', JStr ''2026-01-01T00:00:01.000Z'')]),
                        (''timestamp'', JStr ''2026-01-01T00:00:01.001Z''),
                        (''session_id'', JStr ''session_1'')]]\<rparr>],
      ws = Some 0, sessionId = Some ''session_1'', reconnectAttempts = 0,
      maxReconnectAttempts = 5, reconnectDelay = 1000, isConnecting = False,
      autoReconnect = True, timers = [], scheduled = [],
      notified = [(''connected'', Some ''session_1'')]\<rparr>"
  by (simp add: Let_def connect_def onopen_def send_def isConnected_def the_socket_def
        set_readyState_def notifyConnectionHandlers_def messageWithTimestamp_def ws_init_def
        session_value_def)

text \<open>
  C2. Whenever the socket is not open, which includes there being no socket,
  \<^verbatim>\<open>send(message)\<close> returns false and leaves the whole service, its sockets and what they
  have sent included, as it was. When the socket is open and \<^verbatim>\<open>JSON.stringify\<close> succeeds on
  the stamped message (as it does whenever it succeeds on the message itself), \<^verbatim>\<open>send\<close>
  returns true and the stamped message is what the socket sends.
\<close>

theorem send_when_not_open:
  "(\<not> isConnected s \<longrightarrow> send now message s = (False, s)) \<and>
   (isConnected s \<and> serializable (messageWithTimestamp now message s) \<longrightarrow>
      fst (send now message s) \<and>
      (\<exists>i. ws s = Some i \<and> i < length (sockets s) \<and>
           sent (sockets (snd (send now message s)) ! i)
             = sent (sockets s ! i) @ [messageWithTimestamp now message s])) \<and>
   (isConnected s \<and> serializable message \<longrightarrow> fst (send now message s))"
proof -
  have a: "\<not> isConnected s \<longrightarrow> send now message s = (False, s)"
    by (simp add: send_def isConnected_def the_socket_def split: option.splits)
  have b: "isConnected s \<and> serializable (messageWithTimestamp now message s) \<longrightarrow>
      fst (send now message s) \<and>
      (\<exists>i. ws s = Some i \<and> i < length (sockets s) \<and>
           sent (sockets (snd (send now message s)) ! i)
             = sent (sockets s ! i) @ [messageWithTimestamp now message s])"
    by (simp add: send_def isConnected_def the_socket_def Let_def split: option.splits if_splits)
  have c: "isConnected s \<and> serializable message \<longrightarrow> fst (send now message s)"
    using b envelope_serializable by blast
  from a b c show ?thesis by blast
qed

theorem send_when_not_open_witness:
  "\<not> isConnected ws_init \<and>
   send ''2026-01-01T00:00:00.000Z'' (JObj [(''type'', JStr ''ping'')]) ws_init = (False, ws_init) \<and>
   \<not> isConnected (connect (Some ''session_1'') ''session_0_a'' False ws_init) \<and>
   send ''2026-01-01T00:00:00.500Z'' (JObj [(''type'', JStr ''ping'')])
       (connect (Some ''session_1'') ''session_0_a'' False ws_init)
     = (False, connect (Some ''session_1'') ''session_0_a'' False ws_init) \<and>
   isConnected (ws_step (OnOpen 0 ''2026-01-01T00:00:01.000Z'' ''2026-01-01T00:00:01.001Z'')
                  (connect (Some ''session_1'') ''session_0_a'' False ws_init)) \<and>
   serializable (JObj [(''type'', JStr ''get_status'')]) \<and>
   fst (send ''2026-01-01T00:00:02.000Z'' (JObj [(''type'', JStr ''get_status'')])
          (ws_step (OnOpen 0 ''2026-01-01T00:00:01.000Z'' ''2026-01-01T00:00:01.001Z'')
             (connect (Some ''session_1'') ''session_0_a'' False ws_init)))"
proof -
  let ?c = "connect (Some ''session_1'') ''session_0_a'' False ws_init"
  let ?o = "ws_step (OnOpen 0 ''2026-01-01T00:00:01.000Z'' ''2026-01-01T00:00:01.001Z'') ?c"
  have n0: "\<not> isConnected ws_init"
    by (simp add: isConnected_def the_socket_def ws_init_def)
  have n1: "\<not> isConnected ?c"
    by (simp add: isConnected_def the_socket_def ws_init_def connect_def Let_def)
  have o: "isConnected ?o"
    unfolding session_1_open by (simp add: isConnected_def the_socket_def)
  have ser: "serializable (JObj [(''type'', JStr ''get_status'')])" by simp
  have "send ''2026-01-01T00:00:00.000Z'' (JObj [(''type'', JStr ''ping'')]) ws_init
          = (False, ws_init)"
    using send_when_not_open [of ws_init] n0 by blast
  moreover have "send ''2026-01-01T00:00:00.500Z'' (JObj [(''type'', JStr ''ping'')]) ?c = (False, ?c)"
    using send_when_not_open [of ?c] n1 by blast
  moreover have "fst (send ''2026-01-01T00:00:02.000Z'' (JObj [(''type'', JStr ''get_status'')]) ?o)"
    using send_when_not_open [of ?o] o ser by blast
  ultimately show ?thesis
    using n0 n1 o ser by blast
qed

lemma connect_new_socket:
  "\<not> isConnecting s \<Longrightarrow> \<not> isConnected s \<Longrightarrow>
   connect (Some ''session_1'') fresh False s
     = s\<lparr>isConnecting := True, sessionId := Some ''session_1'',
         sockets := sockets s @ [\<lparr>url = ''ws://localhost:8000/ws/session_1'',
                                   readyState = CONNECTING, sent = []\<rparr>],
         ws := Some (length (sockets s))\<rparr>"
  by (simp add: connect_def Let_def)

lemma ping_on_open:
  "ws s = Some n \<Longrightarrow> n < length (sockets s) \<Longrightarrow> readyState (sockets s ! n) = OPEN \<Longrightarrow>
   sessionId s = Some sid \<Longrightarrow>
   fst (ping now s) \<and>
   sent (sockets (snd (ping now s)) ! n)
     = sent (sockets s ! n) @
       [JObj [(''type'', JStr ''ping''), (''timestamp'', JStr now), (''session_id'', JStr sid)]]"
  by (simp add: ping_def send_def Let_def messageWithTimestamp_def session_value_def)

text \<open>
  C6. From any state in which \<^verbatim>\<open>connect\<close> goes ahead (the fresh service is one):
  after \<^verbatim>\<open>connect("session_1")\<close> and the open event of the new socket, \<^verbatim>\<open>ping()\<close> returns
  true and adds to what that socket has sent exactly the object with the three properties
  \<^verbatim>\<open>type: 'ping'\<close>, \<^verbatim>\<open>timestamp\<close> (the ISO string \<open>now\<close> that the clock gives at the call) and
  \<^verbatim>\<open>session_id: 'session_1'\<close>.
\<close>

theorem ping_envelope:
  assumes "\<not> isConnecting s" and "\<not> isConnected s"
  shows "let n = length (sockets s);
             s1 = connect (Some ''session_1'') fresh False s;
             s2 = ws_step (OnOpen n now1 now2) s1;
             r = ping now s2
         in ws s1 = Some n \<and> isConnected s2 \<and> sessionId s2 = Some ''session_1'' \<and> fst r \<and>
            sent (sockets (snd r) ! n)
              = sent (sockets s2 ! n) @
                [JObj [(''type'', JStr ''ping''), (''timestamp'', JStr now),
                       (''session_id'', JStr ''session_1'')]]"
proof -
  let ?n = "length (sockets s)"
  let ?s1 = "connect (Some ''session_1'') fresh False s"
  let ?s2 = "ws_step (OnOpen ?n now1 now2) ?s1"
  have s1: "?s1 = s\<lparr>isConnecting := True, sessionId := Some ''session_1'',
         sockets := sockets s @ [\<lparr>url = ''ws://localhost:8000/ws/session_1'',
                                   readyState = CONNECTING, sent = []\<rparr>],
         ws := Some ?n\<rparr>"
    using assms by (rule connect_new_socket)
  have w1: "ws ?s1 = Some ?n" by (simp add: s1)
  have s2: "?s2 = onopen now1 now2 (set_readyState ?n OPEN ?s1)"
    by (simp add: s1)
  have w2: "ws ?s2 = Some ?n" and sid: "sessionId ?s2 = Some ''session_1''"
    and len: "?n < length (sockets ?s2)"
    and rs: "readyState (sockets ?s2 ! ?n) = OPEN"
    unfolding s2 by (simp_all add: onopen_fields set_readyState_def s1)
  have conn: "isConnected ?s2"
    using w2 len rs by (simp add: isConnected_def the_socket_def)
  have "fst (ping now ?s2) \<and>
        sent (sockets (snd (ping now ?s2)) ! ?n)
          = sent (sockets ?s2 ! ?n) @
            [JObj [(''type'', JStr ''ping''), (''timestamp'', JStr now),
                   (''session_id'', JStr ''session_1'')]]"
    using w2 len rs sid by (rule ping_on_open)
  with w1 conn sid show ?thesis
    unfolding Let_def by blast
qed

theorem ping_envelope_witness:
  "\<not> isConnecting ws_init \<and> \<not> isConnected ws_init \<and>
   fst (ping ''2026-01-01T00:00:02.000Z''
          (ws_step (OnOpen 0 ''2026-01-01T00:00:01.000Z'' ''2026-01-01T00:00:01.001Z'')
             (connect (Some ''session_1'') ''session_0_a'' False ws_init))) \<and>
   sent (sockets (snd (ping ''2026-01-01T00:00:02.000Z''
          (ws_step (OnOpen 0 ''2026-01-01T00:00:01.000Z'' ''2026-01-01T00:00:01.001Z'')
             (connect (Some ''session_1'') ''session_0_a'' False ws_init)))) ! 0)
     = [JObj [(''type'', JStr ''connection''),
              (''data'', JObj [(''session_id'', JStr ''session_1''),
                               (''client_type'', JStr ''web_ui''),
                               (''timestamp'', JStr ''2026-01-01T00:00:01.000Z'')]),
              (''timestamp'', JStr ''2026-01-01T00:00:01.001Z''),
              (''session_id'', JStr ''session_1'')],
        JObj [(''type'', JStr ''ping''), (''timestamp'', JStr ''2026-01-01T00:00:02.000Z''),
              (''session_id'', JStr ''session_1'')]]"
proof -
  have n: "\<not> isConnecting ws_init" "\<not> isConnected ws_init"
    by (simp_all add: isConnected_def the_socket_def ws_init_def)
  have l: "length (sockets ws_init) = 0"
    by (simp add: ws_init_def)
  show ?thesis
    using ping_envelope [OF n, of "''session_0_a''" "''2026-01-01T00:00:01.000Z''"
            "''2026-01-01T00:00:01.001Z''" "''2026-01-01T00:00:02.000Z''"] n
    unfolding Let_def l session_1_open
    by simp
qed

subsection \<open>After disconnect\<close>

lemma off_step:
  "e \<noteq> SetAutoReconnect True \<Longrightarrow> \<not> autoReconnect s \<Longrightarrow>
   \<not> autoReconnect (ws_step e s) \<and> scheduled (ws_step e s) = scheduled s"
  by (cases e)
     (auto simp: send_frame connect_frame disconnect_def setAutoReconnect_def
        onerror_def onclose_def onopen_def reconnect_callback_def
        handleConnectionError_def notifyConnectionHandlers_def close_socket_def
        set_readyState_def Let_def split: option.splits)

lemma off_run:
  "\<forall>e \<in> set es. e \<noteq> SetAutoReconnect True \<Longrightarrow> \<not> autoReconnect s \<Longrightarrow>
   \<not> autoReconnect (ws_run es s) \<and> scheduled (ws_run es s) = scheduled s"
  unfolding ws_run_def
proof (induction es arbitrary: s)
  case Nil
  then show ?case by simp
next
  case (Cons e es)
  have st: "\<not> autoReconnect (ws_step e s) \<and> scheduled (ws_step e s) = scheduled s"
    using Cons.prems by (simp add: off_step)
  with Cons.IH[of "ws_step e s"] Cons.prems show ?case by simp
qed

lemma off_browser_step:
  "is_browser_event e \<Longrightarrow> \<not> autoReconnect s \<Longrightarrow>
   length (sockets (ws_step e s)) = length (sockets s) \<and> ws (ws_step e s) = ws s \<and>
   \<not> autoReconnect (ws_step e s) \<and> length (timers (ws_step e s)) \<le> length (timers s)"
  by (cases e)
     (auto simp: send_frame onerror_def onclose_def onopen_def reconnect_callback_def
        handleConnectionError_def notifyConnectionHandlers_def
        set_readyState_def Let_def split: option.splits)

lemma off_browser_run:
  "\<forall>e \<in> set es. is_browser_event e \<Longrightarrow> \<not> autoReconnect s \<Longrightarrow>
   length (sockets (ws_run es s)) = length (sockets s) \<and> ws (ws_run es s) = ws s \<and>
   length (timers (ws_run es s)) \<le> length (timers s)"
  unfolding ws_run_def
proof (induction es arbitrary: s)
  case Nil
  then show ?case by simp
next
  case (Cons e es)
  have st: "length (sockets (ws_step e s)) = length (sockets s) \<and> ws (ws_step e s) = ws s \<and>
            \<not> autoReconnect (ws_step e s) \<and> length (timers (ws_step e s)) \<le> length (timers s)"
    using Cons.prems by (simp add: off_browser_step)
  with Cons.IH[of "ws_step e s"] Cons.prems show ?case by fastforce
qed

lemma off_close:
  "\<not> autoReconnect s \<Longrightarrow>
   timers (ws_step (OnClose i) s) = timers s \<and>
   scheduled (ws_step (OnClose i) s) = scheduled s \<and>
   length (sockets (ws_step (OnClose i) s)) = length (sockets s) \<and>
   ws (ws_step (OnClose i) s) = ws s"
  by (auto simp: onclose_def notifyConnectionHandlers_def set_readyState_def Let_def)

lemma off_timeout:
  "\<not> autoReconnect s \<Longrightarrow>
   sockets (ws_step (Timeout k f t) s) = sockets s \<and>
   ws (ws_step (Timeout k f t) s) = ws s \<and>
   scheduled (ws_step (Timeout k f t) s) = scheduled s"
  by (auto simp: reconnect_callback_def)

text \<open>A socket that closed before it opened, with its reconnect timer pending.\<close>

lemma closed_once_state:
  "ws_run [Connect (Some ''session_1'') ''session_0_a'' False, OnClose 0] ws_init
   = \<lparr>sockets = [\<lparr>url = ''ws://localhost:8000/ws/session_1'', readyState = CLOSED, sent = []\<rparr>],
      ws = Some 0, sessionId = Some ''session_1'', reconnectAttempts = 1,
      maxReconnectAttempts = 5, reconnectDelay = 1000, isConnecting = False,
      autoReconnect = True, timers = [1000], scheduled = [(1, 1000)],
      notified = [(''disconnected'', Some ''session_1'')]\<rparr>"
  by (simp add: ws_run_def ws_init_def connect_def onclose_def scheduleReconnect_def
        notifyConnectionHandlers_def set_readyState_def isConnected_def the_socket_def Let_def)

text \<open>
  C9. \<^verbatim>\<open>disconnect()\<close> sets \<open>autoReconnect\<close> to false. From then on, through any
  sequence of calls and events in which \<^verbatim>\<open>setAutoReconnect(true)\<close> does not occur (manual
  \<^verbatim>\<open>connect\<close> calls may), the flag stays false, no reconnect is scheduled, a socket close
  sets no timer and opens no socket, and a reconnect timer that fires opens no socket and
  leaves \<^verbatim>\<open>this.ws\<close> alone. In particular, while only the browser acts (socket events and
  timers), no socket is created and \<^verbatim>\<open>this.ws\<close> stays \<^verbatim>\<open>null\<close>.
\<close>

theorem disconnect_stops_reconnect:
  "\<not> autoReconnect (disconnect s) \<and>
   ((\<forall>e \<in> set es. e \<noteq> SetAutoReconnect True) \<longrightarrow>
      \<not> autoReconnect (ws_run es (disconnect s)) \<and>
      scheduled (ws_run es (disconnect s)) = scheduled s \<and>
      timers (ws_step (OnClose i) (ws_run es (disconnect s))) = timers (ws_run es (disconnect s)) \<and>
      length (sockets (ws_step (OnClose i) (ws_run es (disconnect s))))
        = length (sockets (ws_run es (disconnect s))) \<and>
      sockets (ws_step (Timeout k fresh throws) (ws_run es (disconnect s)))
        = sockets (ws_run es (disconnect s)) \<and>
      ws (ws_step (Timeout k fresh throws) (ws_run es (disconnect s)))
        = ws (ws_run es (disconnect s))) \<and>
   ((\<forall>e \<in> set es. is_browser_event e) \<longrightarrow>
      length (sockets (ws_run es (disconnect s))) = length (sockets s) \<and>
      ws (ws_run es (disconnect s)) = None \<and>
      length (timers (ws_run es (disconnect s))) \<le> length (timers s))"
proof -
  let ?d = "disconnect s"
  have a: "\<not> autoReconnect ?d" by (rule disconnect_fields)
  have b: "(\<forall>e \<in> set es. e \<noteq> SetAutoReconnect True) \<longrightarrow>
      \<not> autoReconnect (ws_run es ?d) \<and>
      scheduled (ws_run es ?d) = scheduled s \<and>
      timers (ws_step (OnClose i) (ws_run es ?d)) = timers (ws_run es ?d) \<and>
      length (sockets (ws_step (OnClose i) (ws_run es ?d))) = length (sockets (ws_run es ?d)) \<and>
      sockets (ws_step (Timeout k fresh throws) (ws_run es ?d)) = sockets (ws_run es ?d) \<and>
      ws (ws_step (Timeout k fresh throws) (ws_run es ?d)) = ws (ws_run es ?d)"
  proof
    assume h: "\<forall>e \<in> set es. e \<noteq> SetAutoReconnect True"
    have off: "\<not> autoReconnect (ws_run es ?d)" and sch: "scheduled (ws_run es ?d) = scheduled s"
      using off_run[OF h a] by (simp_all add: disconnect_fields)
    show "\<not> autoReconnect (ws_run es ?d) \<and>
      scheduled (ws_run es ?d) = scheduled s \<and>
      timers (ws_step (OnClose i) (ws_run es ?d)) = timers (ws_run es ?d) \<and>
      length (sockets (ws_step (OnClose i) (ws_run es ?d))) = length (sockets (ws_run es ?d)) \<and>
      sockets (ws_step (Timeout k fresh throws) (ws_run es ?d)) = sockets (ws_run es ?d) \<and>
      ws (ws_step (Timeout k fresh throws) (ws_run es ?d)) = ws (ws_run es ?d)"
      using off sch off_close[OF off, of i] off_timeout[OF off, of k fresh throws] by simp
  qed
  have c: "(\<forall>e \<in> set es. is_browser_event e) \<longrightarrow>
      length (sockets (ws_run es ?d)) = length (sockets s) \<and>
      ws (ws_run es ?d) = None \<and>
      length (timers (ws_run es ?d)) \<le> length (timers s)"
  proof
    assume h: "\<forall>e \<in> set es. is_browser_event e"
    show "length (sockets (ws_run es ?d)) = length (sockets s) \<and>
      ws (ws_run es ?d) = None \<and>
      length (timers (ws_run es ?d)) \<le> length (timers s)"
      using off_browser_run[OF h a] by (simp add: disconnect_fields)
  qed
  from a b c show ?thesis by blast
qed

theorem disconnect_stops_reconnect_witness:
  "timers (ws_run [Connect (Some ''session_1'') ''session_0_a'' False, OnClose 0] ws_init) = [1000] \<and>
   length (sockets (ws_run [Timeout 0 ''session_0_b'' False]
      (ws_run [Connect (Some ''session_1'') ''session_0_a'' False, OnClose 0] ws_init))) = 2 \<and>
   filter (\<lambda>e. \<not> is_browser_event e) [Timeout 0 ''session_0_b'' False, OnClose 0] = [] \<and>
   \<not> autoReconnect (ws_run [Timeout 0 ''session_0_b'' False, OnClose 0]
      (disconnect (ws_run [Connect (Some ''session_1'') ''session_0_a'' False, OnClose 0] ws_init))) \<and>
   length (sockets (ws_run [Timeout 0 ''session_0_b'' False, OnClose 0]
      (disconnect (ws_run [Connect (Some ''session_1'') ''session_0_a'' False, OnClose 0] ws_init)))) = 1 \<and>
   ws (ws_run [Timeout 0 ''session_0_b'' False, OnClose 0]
      (disconnect (ws_run [Connect (Some ''session_1'') ''session_0_a'' False, OnClose 0] ws_init))) = None \<and>
   scheduled (ws_run [Timeout 0 ''session_0_b'' False, OnClose 0]
      (disconnect (ws_run [Connect (Some ''session_1'') ''session_0_a'' False, OnClose 0] ws_init)))
     = [(1, 1000)]"
proof -
  let ?s = "ws_run [Connect (Some ''session_1'') ''session_0_a'' False, OnClose 0] ws_init"
  let ?es = "[Timeout 0 ''session_0_b'' False, OnClose 0]"
  have h1: "\<forall>e \<in> set ?es. e \<noteq> SetAutoReconnect True" by simp
  have h2: "\<forall>e \<in> set ?es. is_browser_event e" by simp
  have f: "filter (\<lambda>e. \<not> is_browser_event e) ?es = []" by simp
  have t: "timers ?s = [1000]" and l: "length (sockets ?s) = 1" and sc: "scheduled ?s = [(1, 1000)]"
    unfolding closed_once_state by simp_all
  have r: "length (sockets (ws_run [Timeout 0 ''session_0_b'' False] ?s)) = 2"
    unfolding closed_once_state
    by (simp add: ws_run_def reconnect_callback_def connect_def isConnected_def the_socket_def
          Let_def)
  have "\<not> autoReconnect (ws_run ?es (disconnect ?s)) \<and>
        scheduled (ws_run ?es (disconnect ?s)) = scheduled ?s \<and>
        length (sockets (ws_run ?es (disconnect ?s))) = length (sockets ?s) \<and>
        ws (ws_run ?es (disconnect ?s)) = None"
    using disconnect_stops_reconnect [where s = ?s and es = ?es] h1 h2 by blast
  with t l sc r f show ?thesis by simp
qed

section \<open>App mute control: results\<close>

lemma app_run_append: "app_run (xs @ ys) s = app_run ys (app_run xs s)"
  by (simp add: app_run_def)

lemma server_acknowledged_append:
  "server_acknowledged (xs @ ys) m = server_acknowledged ys (server_acknowledged xs m)"
  by (induction xs m rule: server_acknowledged.induct) simp_all

lemma answered_click_effect:
  "websocketOpen s \<Longrightarrow>
   websocketOpen (app_run (answered_click ok s) s) \<and>
   isMuted (app_run (answered_click ok s) s)
     = server_acknowledged (answered_click ok s) (isMuted s)"
  by (simp add: answered_click_def app_run_def toggleMute_def sendWebSocketMessage_def
        handleWebSocketMessage_def response_def request_type_def acknowledge_def)

lemma answered_clicks_agree:
  "websocketOpen s \<Longrightarrow>
   isMuted (app_run (answered_clicks oks s) s)
     = server_acknowledged (answered_clicks oks s) (isMuted s)"
proof (induction oks arbitrary: s)
  case Nil
  then show ?case by (simp add: app_run_def)
next
  case (Cons ok oks)
  let ?s1 = "app_run (answered_click ok s) s"
  have 1: "websocketOpen ?s1"
    and 2: "isMuted ?s1 = server_acknowledged (answered_click ok s) (isMuted s)"
    using answered_click_effect[OF Cons.prems] by simp_all
  have "isMuted (app_run (answered_clicks oks ?s1) ?s1)
          = server_acknowledged (answered_clicks oks ?s1) (isMuted ?s1)"
    using 1 by (rule Cons.IH)
  then show ?case
    by (simp add: app_run_append server_acknowledged_append 2)
qed

text \<open>
  C3, as stated: for every sequence of clicks and responses, at every point where all
  requests have been answered the displayed mute state is the one the server last
  acknowledged. With the socket open: a click is acknowledged (muted); two more clicks
  send \<^verbatim>\<open>unmute\<close> and \<^verbatim>\<open>mute\<close> before any answer; the server fails both, in order. Every
  request is answered, the server's last acknowledged state is muted, and the button
  shows unmuted.
\<close>

theorem mute_display_diverges:
  "map request_type
     (outbox (app_run [Click, Receive (response ''mute'' True), Click, Click,
                       Receive (response ''unmute'' False), Receive (response ''mute'' False)]
                (mute_app_init\<lparr>websocketOpen := True\<rparr>)))
     = [''mute'', ''unmute'', ''mute''] \<and>
   isMuted (app_run [Click, Receive (response ''mute'' True), Click, Click,
                     Receive (response ''unmute'' False), Receive (response ''mute'' False)]
              (mute_app_init\<lparr>websocketOpen := True\<rparr>)) = False \<and>
   server_acknowledged [Click, Receive (response ''mute'' True), Click, Click,
                        Receive (response ''unmute'' False), Receive (response ''mute'' False)]
       False = True"
  by (simp add: app_run_def toggleMute_def sendWebSocketMessage_def mute_app_init_def
        handleWebSocketMessage_def response_def request_type_def acknowledge_def)

text \<open>
  C3, amended. \<^verbatim>\<open>toggleMute\<close> flips \<open>isMuted\<close> at once, and on an open socket sends
  \<^verbatim>\<open>mute\<close> or \<^verbatim>\<open>unmute\<close>. A \<^verbatim>\<open>mute_response\<close> whose status is not \<^verbatim>\<open>success\<close> sets
  \<open>isMuted\<close> to false and an \<^verbatim>\<open>unmute_response\<close> whose status is not \<^verbatim>\<open>success\<close> sets it
  to true; with status \<^verbatim>\<open>success\<close> either leaves the state as it is. When the socket is
  open and every click is answered before the next one, the displayed mute state equals
  the state the server last acknowledged, after each answer.
\<close>

theorem mute_optimistic_update:
  "isMuted (toggleMute s) = (\<not> isMuted s) \<and>
   (websocketOpen s \<longrightarrow>
      map request_type (outbox (toggleMute s))
        = map request_type (outbox s) @ [if isMuted s then ''unmute'' else ''mute'']) \<and>
   (\<not> strict_eq_str status ''success'' \<longrightarrow>
      isMuted (handleWebSocketMessage
                 (JObj [(''type'', JStr ''mute_response''), (''status'', status)]) s) = False \<and>
      isMuted (handleWebSocketMessage
                 (JObj [(''type'', JStr ''unmute_response''), (''status'', status)]) s) = True) \<and>
   handleWebSocketMessage (JObj [(''type'', JStr ''mute_response''),
                                 (''status'', JStr ''success'')]) s = s \<and>
   handleWebSocketMessage (JObj [(''type'', JStr ''unmute_response''),
                                 (''status'', JStr ''success'')]) s = s \<and>
   (websocketOpen s \<longrightarrow>
      isMuted (app_run (answered_clicks oks s) s)
        = server_acknowledged (answered_clicks oks s) (isMuted s))"
proof -
  have a: "isMuted (toggleMute s) = (\<not> isMuted s)"
    by (simp add: toggleMute_def)
  have b: "websocketOpen s \<longrightarrow>
      map request_type (outbox (toggleMute s))
        = map request_type (outbox s) @ [if isMuted s then ''unmute'' else ''mute'']"
    by (simp add: toggleMute_def sendWebSocketMessage_def request_type_def)
  have c: "\<not> strict_eq_str status ''success'' \<longrightarrow>
      isMuted (handleWebSocketMessage
                 (JObj [(''type'', JStr ''mute_response''), (''status'', status)]) s) = False \<and>
      isMuted (handleWebSocketMessage
                 (JObj [(''type'', JStr ''unmute_response''), (''status'', status)]) s) = True"
    by (simp add: handleWebSocketMessage_def)
  have d: "handleWebSocketMessage (JObj [(''type'', JStr ''mute_response''),
                                         (''status'', JStr ''success'')]) s = s"
          "handleWebSocketMessage (JObj [(''type'', JStr ''unmute_response''),
                                         (''status'', JStr ''success'')]) s = s"
    by (simp_all add: handleWebSocketMessage_def)
  have e: "websocketOpen s \<longrightarrow>
      isMuted (app_run (answered_clicks oks s) s)
        = server_acknowledged (answered_clicks oks s) (isMuted s)"
    using answered_clicks_agree by blast
  from a b c d e show ?thesis by blast
qed

theorem mute_optimistic_update_witness:
  "websocketOpen (mute_app_init\<lparr>websocketOpen := True\<rparr>) \<and>
   \<not> strict_eq_str (JStr ''error'') ''success'' \<and>
   isMuted (toggleMute (mute_app_init\<lparr>websocketOpen := True\<rparr>)) \<and>
   isMuted (handleWebSocketMessage
              (JObj [(''type'', JStr ''mute_response''), (''status'', JStr ''error'')])
              (toggleMute (mute_app_init\<lparr>websocketOpen := True\<rparr>))) = False \<and>
   answered_clicks [True, False, False, True] (mute_app_init\<lparr>websocketOpen := True\<rparr>)
     = [Click, Receive (response ''mute'' True), Click, Receive (response ''unmute'' False),
        Click, Receive (response ''unmute'' False), Click, Receive (response ''unmute'' True)] \<and>
   isMuted (app_run (answered_clicks [True, False, False, True]
                       (mute_app_init\<lparr>websocketOpen := True\<rparr>))
              (mute_app_init\<lparr>websocketOpen := True\<rparr>)) = False \<and>
   server_acknowledged (answered_clicks [True, False, False, True]
                          (mute_app_init\<lparr>websocketOpen := True\<rparr>))
       (isMuted (mute_app_init\<lparr>websocketOpen := True\<rparr>)) = False"
proof -
  let ?s = "mute_app_init\<lparr>websocketOpen := True\<rparr>"
  have o: "websocketOpen ?s" by simp
  have n: "\<not> strict_eq_str (JStr ''error'') ''success''" by simp
  have seq: "answered_clicks [True, False, False, True] ?s
     = [Click, Receive (response ''mute'' True), Click, Receive (response ''unmute'' False),
        Click, Receive (response ''unmute'' False), Click, Receive (response ''unmute'' True)]"
    by (simp add: answered_click_def app_run_def toggleMute_def sendWebSocketMessage_def
          mute_app_init_def handleWebSocketMessage_def response_def request_type_def)
  have ack: "server_acknowledged (answered_clicks [True, False, False, True] ?s) (isMuted ?s) = False"
    unfolding seq by (simp add: response_def acknowledge_def mute_app_init_def)
  have t: "isMuted (toggleMute ?s)"
    using mute_optimistic_update [of ?s] by (simp add: mute_app_init_def)
  have r: "isMuted (handleWebSocketMessage
              (JObj [(''type'', JStr ''mute_response''), (''status'', JStr ''error'')])
              (toggleMute ?s)) = False"
    using mute_optimistic_update [of "toggleMute ?s" "JStr ''error''"] n by blast
  have "isMuted (app_run (answered_clicks [True, False, False, True] ?s) ?s)
          = server_acknowledged (answered_clicks [True, False, False, True] ?s) (isMuted ?s)"
    using mute_optimistic_update [of ?s _ "[True, False, False, True]"] o by blast
  with o n seq ack t r show ?thesis by simp
qed

end
